theory Spec2Isabelle
  imports Complex_Main
begin

section \<open>The Lorenz attractor simulator of \<^verbatim>\<open>tools/chaos_demo.py\<close>\<close>

text \<open>
  The development embeds class \<^verbatim>\<open>LorenzSimulator\<close> and the trajectory painting of
  \<^verbatim>\<open>create_watchy_frame_pil\<close>. Python floats and numpy \<^verbatim>\<open>float64\<close> values are read as
  real numbers, so rounding, infinities and NaN are outside the model; \<^verbatim>\<open>math.pi\<close>,
  \<^verbatim>\<open>math.cos\<close> and \<^verbatim>\<open>math.sin\<close> are the real \<open>pi\<close>, \<open>cos\<close> and \<open>sin\<close>. Python integers
  are \<open>int\<close>.
\<close>

subsection \<open>Three-component arrays\<close>

text \<open>
  \<^verbatim>\<open>np.array([a, b, c])\<close> is a triple. The four functions below are the numpy operators
  the integrator uses: array plus array, array times scalar, scalar times array and array
  divided by scalar, all component-wise.
\<close>

type_synonym vec3 = "real \<times> real \<times> real"

fun vadd :: "vec3 \<Rightarrow> vec3 \<Rightarrow> vec3" where
  "vadd (a, b, c) (d, e, f) = (a + d, b + e, c + f)"

fun vmul :: "vec3 \<Rightarrow> real \<Rightarrow> vec3" where
  "vmul (a, b, c) r = (a * r, b * r, c * r)"

fun smul :: "real \<Rightarrow> vec3 \<Rightarrow> vec3" where
  "smul r (a, b, c) = (r * a, r * b, r * c)"

fun vdiv :: "vec3 \<Rightarrow> real \<Rightarrow> vec3" where
  "vdiv (a, b, c) r = (a / r, b / r, c / r)"

subsection \<open>The simulator object\<close>

text \<open>
  The attributes set by \<^verbatim>\<open>__init__\<close>, in its order. In this record the trajectory holds
  the recorded points by value; the store-level record further down keeps references
  instead, to make the effect of \<^verbatim>\<open>self.pos.copy()\<close> visible.
\<close>

record simulator =
  sigma :: real
  rho :: real
  beta :: real
  dt :: real
  pos :: vec3
  max_points :: int
  trajectory :: "vec3 list"
  rotation_angle :: real
  display_width :: int
  display_height :: int

definition LorenzSimulator_init :: simulator where
  "LorenzSimulator_init =
     \<lparr> sigma = 10, rho = 28, beta = 8 / 3, dt = 5 / 100,
       pos = (1, 1, 1),
       max_points = 300, trajectory = [], rotation_angle = 0,
       display_width = 200, display_height = 200 \<rparr>"

subsection \<open>The integrator\<close>

definition lorenz_derivative :: "simulator \<Rightarrow> vec3 \<Rightarrow> vec3" where
  "lorenz_derivative s p =
     (case p of (x, y, z) \<Rightarrow>
        (sigma s * (y - x), x * (rho s - z) - y, x * y - beta s * z))"

text \<open>
  \<^verbatim>\<open>k1 * self.dt / 2\<close> is \<^verbatim>\<open>(k1 * self.dt) / 2\<close>, and the final sum associates to the
  left, as Python evaluates it.
\<close>

definition update_lorenz :: "simulator \<Rightarrow> simulator" where
  "update_lorenz s =
     (let k1 = lorenz_derivative s (pos s);
          k2 = lorenz_derivative s (vadd (pos s) (vdiv (vmul k1 (dt s)) 2));
          k3 = lorenz_derivative s (vadd (pos s) (vdiv (vmul k2 (dt s)) 2));
          k4 = lorenz_derivative s (vadd (pos s) (vmul k3 (dt s)))
      in s\<lparr>pos := vadd (pos s)
             (vdiv (vmul (vadd (vadd (vadd k1 (smul 2 k2)) (smul 2 k3)) k4) (dt s)) 6)\<rparr>)"

text \<open>The states visited by \<open>n\<close> successive integration steps, oldest first.\<close>

fun state_sequence :: "nat \<Rightarrow> simulator \<Rightarrow> vec3 list" where
  "state_sequence 0 s = []"
| "state_sequence (Suc n) s = pos (update_lorenz s) # state_sequence n (update_lorenz s)"

text \<open>
  The step as the specification words it, written component by component: the Lorenz
  field with the classic constants, four stage evaluations, weights \<open>(1, 2, 2, 1) / 6\<close>.
\<close>

definition spec_lorenz_field :: "vec3 \<Rightarrow> vec3" where
  "spec_lorenz_field p =
     (case p of (x, y, z) \<Rightarrow> (10 * (y - x), x * (28 - z) - y, x * y - (8 / 3) * z))"

definition spec_advance :: "vec3 \<Rightarrow> real \<Rightarrow> vec3 \<Rightarrow> vec3" where
  "spec_advance p h k =
     (case (p, k) of ((x, y, z), (kx, ky, kz)) \<Rightarrow> (x + h * kx, y + h * ky, z + h * kz))"

definition spec_rk4_step :: "vec3 \<Rightarrow> vec3" where
  "spec_rk4_step p =
     (let h = 5 / 100;
          k1 = spec_lorenz_field p;
          k2 = spec_lorenz_field (spec_advance p (h / 2) k1);
          k3 = spec_lorenz_field (spec_advance p (h / 2) k2);
          k4 = spec_lorenz_field (spec_advance p h k3)
      in (case (p, k1, k2, k3, k4) of
            ((x, y, z), (ax, ay, az), (bx, by, bz), (cx, cy, cz), (dx, dy, dz)) \<Rightarrow>
              (x + (ax + 2 * bx + 2 * cx + dx) * h / 6,
               y + (ay + 2 * by + 2 * cy + dy) * h / 6,
               z + (az + 2 * bz + 2 * cz + dz) * h / 6)))"

definition classic_constants :: "simulator \<Rightarrow> bool" where
  "classic_constants s \<longleftrightarrow> sigma s = 10 \<and> rho s = 28 \<and> beta s = 8 / 3 \<and> dt s = 5 / 100"

subsection \<open>The trajectory buffer\<close>

text \<open>
  \<^verbatim>\<open>list.pop(0)\<close> raises \<^verbatim>\<open>IndexError\<close> on an empty list, which the else branch
  reaches when \<^verbatim>\<open>max_points\<close> is not positive. The last element of an empty sequence
  (\<^verbatim>\<open>screen_y[-1]\<close> in the painter) raises the same error.
\<close>

datatype error = IndexError

definition add_trajectory_point :: "simulator \<Rightarrow> error + simulator" where
  "add_trajectory_point s =
     (if int (length (trajectory s)) < max_points s
      then Inr (s\<lparr>trajectory := trajectory s @ [pos s]\<rparr>)
      else (case trajectory s of
              [] \<Rightarrow> Inl IndexError
            | _ # rest \<Rightarrow> Inr (s\<lparr>trajectory := rest @ [pos s]\<rparr>)))"

text \<open>
  A sequence of pushes: the state holds the next point of the list at the moment of each
  push. An error ends the sequence, as the exception would.
\<close>

fun push_points :: "vec3 list \<Rightarrow> simulator \<Rightarrow> error + simulator" where
  "push_points [] s = Inr s"
| "push_points (p # ps) s =
     (case add_trajectory_point (s\<lparr>pos := p\<rparr>) of
        Inl e \<Rightarrow> Inl e
      | Inr s' \<Rightarrow> push_points ps s')"

subsection \<open>The projection\<close>

definition project_3d_to_2d :: "simulator \<Rightarrow> vec3 \<Rightarrow> real \<times> real" where
  "project_3d_to_2d s point_3d =
     (case point_3d of (x, y, z) \<Rightarrow>
        (let cos_rot = cos (rotation_angle s);
             sin_rot = sin (rotation_angle s);
             x_rot = x * cos_rot - z * sin_rot;
             y_rot = y
         in (x_rot, y_rot)))"

text \<open>
  The reductions \<^verbatim>\<open>.min()\<close> and \<^verbatim>\<open>.max()\<close> of a numpy column. numpy raises on an empty
  array; \<^verbatim>\<open>get_screen_coordinates\<close> returns before it reduces an empty trajectory, so
  the reductions are given for non-empty columns only.
\<close>

fun amin :: "real list \<Rightarrow> real" where
  "amin (x # xs) = fold min xs x"

fun amax :: "real list \<Rightarrow> real" where
  "amax (x # xs) = fold max xs x"

text \<open>\<^verbatim>\<open>np.clip(a, lo, hi)\<close> is \<^verbatim>\<open>minimum(hi, maximum(a, lo))\<close> on each element.\<close>

definition clip :: "real list \<Rightarrow> real \<Rightarrow> real \<Rightarrow> real list" where
  "clip a lo hi = map (\<lambda>v. min hi (max v lo)) a"

definition get_screen_coordinates :: "simulator \<Rightarrow> real list \<times> real list" where
  "get_screen_coordinates s =
     (if trajectory s = [] then ([], [])
      else
        (let screen_points = map (project_3d_to_2d s) (trajectory s)
         in if length screen_points = 0 then ([], [])
            else
         let col_x = map fst screen_points;
             col_y = map snd screen_points;
             min_x = amin col_x; max_x = amax col_x;
             min_y = amin col_y; max_y = amax col_y;
             range_x = max_x - min_x;
             range_y = max_y - min_y;
             range_x = (if range_x < 1 / 10 then 1 / 10 else range_x);
             range_y = (if range_y < 1 / 10 then 1 / 10 else range_y);
             scale_x = 80 / range_x;
             scale_y = 80 / range_y;
             scale = min scale_x scale_y;
             center_x = (min_x + max_x) / 2;
             center_y = (min_y + max_y) / 2;
             screen_x = map (\<lambda>v. (v - center_x) * scale + 100) col_x;
             screen_y = map (\<lambda>v. (v - center_y) * scale + 100) col_y;
             screen_x = clip screen_x 5 195;
             screen_y = clip screen_y 5 195
         in (screen_x, screen_y)))"

text \<open>
  The intermediate values of \<^verbatim>\<open>get_screen_coordinates\<close> by name, for stating its
  properties: the two columns of rotated points, the ranges of their bounding box before
  and after the guard against small ranges, the centre and the uniform scale.
\<close>

definition rotated_x :: "simulator \<Rightarrow> real list" where
  "rotated_x s = map (\<lambda>p. fst (project_3d_to_2d s p)) (trajectory s)"

definition rotated_y :: "simulator \<Rightarrow> real list" where
  "rotated_y s = map (\<lambda>p. snd (project_3d_to_2d s p)) (trajectory s)"

definition range_x :: "simulator \<Rightarrow> real" where
  "range_x s = amax (rotated_x s) - amin (rotated_x s)"

definition range_y :: "simulator \<Rightarrow> real" where
  "range_y s = amax (rotated_y s) - amin (rotated_y s)"

definition guarded_range_x :: "simulator \<Rightarrow> real" where
  "guarded_range_x s = (if range_x s < 1 / 10 then 1 / 10 else range_x s)"

definition guarded_range_y :: "simulator \<Rightarrow> real" where
  "guarded_range_y s = (if range_y s < 1 / 10 then 1 / 10 else range_y s)"

definition center_x :: "simulator \<Rightarrow> real" where
  "center_x s = (amin (rotated_x s) + amax (rotated_x s)) / 2"

definition center_y :: "simulator \<Rightarrow> real" where
  "center_y s = (amin (rotated_y s) + amax (rotated_y s)) / 2"

definition fit_scale :: "simulator \<Rightarrow> real" where
  "fit_scale s = min (80 / guarded_range_x s) (80 / guarded_range_y s)"


subsection \<open>One frame of simulation\<close>

text \<open>The loop of \<^verbatim>\<open>simulate_frame\<close>: \<open>n\<close> rounds of integrate, then record.\<close>

fun integrate_and_record :: "nat \<Rightarrow> simulator \<Rightarrow> error + simulator" where
  "integrate_and_record 0 s = Inr s"
| "integrate_and_record (Suc n) s =
     (case add_trajectory_point (update_lorenz s) of
        Inl e \<Rightarrow> Inl e
      | Inr s' \<Rightarrow> integrate_and_record n s')"

text \<open>The last three lines of \<^verbatim>\<open>simulate_frame\<close>: advance the view angle and wrap it.\<close>

definition rotate_view :: "simulator \<Rightarrow> simulator" where
  "rotate_view s =
     (let s1 = s\<lparr>rotation_angle := rotation_angle s + 2 / 10\<rparr>
      in if rotation_angle s1 > 2 * pi
         then s1\<lparr>rotation_angle := rotation_angle s1 - 2 * pi\<rparr>
         else s1)"

text \<open>The view angle after \<^verbatim>\<open>rotate_view\<close>, as a function of the angle before.\<close>

definition advance_angle :: "real \<Rightarrow> real" where
  "advance_angle a = (if a + 2 / 10 > 2 * pi then a + 2 / 10 - 2 * pi else a + 2 / 10)"

definition simulate_frame :: "simulator \<Rightarrow> error + simulator" where
  "simulate_frame s =
     (case integrate_and_record 50 s of
        Inl e \<Rightarrow> Inl e
      | Inr s' \<Rightarrow> Inr (rotate_view s'))"

text \<open>
  The simulator after \<open>n\<close> frames: the loop of \<^verbatim>\<open>generate_gif\<close>, which calls
  \<^verbatim>\<open>simulate_frame\<close> once for each frame, without the pictures.
\<close>

fun run_frames :: "nat \<Rightarrow> simulator \<Rightarrow> error + simulator" where
  "run_frames 0 s = Inr s"
| "run_frames (Suc n) s =
     (case simulate_frame s of
        Inl e \<Rightarrow> Inl e
      | Inr s' \<Rightarrow> run_frames n s')"




subsection \<open>Painting the trajectory\<close>

text \<open>
  The image is the mode \<^verbatim>\<open>L\<close> picture of \<^verbatim>\<open>Image.new('L', (200, 200), 255)\<close>: a grey value
  for each pixel position, read at positions inside the 200 by 200 frame.
  \<^verbatim>\<open>ImageDraw.point\<close> leaves the picture unchanged for a position outside the frame.
  \<^verbatim>\<open>int\<close> of a float truncates towards zero.
\<close>

type_synonym image = "int \<times> int \<Rightarrow> nat"

definition Image_new :: image where
  "Image_new = (\<lambda>_. 255)"

definition in_frame :: "int \<times> int \<Rightarrow> bool" where
  "in_frame p \<longleftrightarrow> 0 \<le> fst p \<and> fst p < 200 \<and> 0 \<le> snd p \<and> snd p < 200"

definition draw_point :: "image \<Rightarrow> int \<times> int \<Rightarrow> image" where
  "draw_point img p = (if in_frame p then img(p := 0) else img)"

definition py_int :: "real \<Rightarrow> int" where
  "py_int r = (if 0 \<le> r then \<lfloor>r\<rfloor> else \<lceil>r\<rceil>)"

text \<open>
  The guard of the 3 by 3 stroke compares floats, the guard of the 5 by 5 stroke
  integers; a sub-pixel whose guard fails is skipped.
\<close>

definition trajectory_guard :: "real \<Rightarrow> real \<Rightarrow> bool" where
  "trajectory_guard u v \<longleftrightarrow> 0 \<le> u \<and> u < 200 \<and> 0 \<le> v \<and> v < 200"

definition current_guard :: "int \<Rightarrow> int \<Rightarrow> bool" where
  "current_guard u v \<longleftrightarrow> 0 \<le> u \<and> u < 200 \<and> 0 \<le> v \<and> v < 200"

definition draw_trajectory_point :: "real \<times> real \<Rightarrow> image \<Rightarrow> image" where
  "draw_trajectory_point c img =
     (case c of (x, y) \<Rightarrow>
        fold (\<lambda>dx img.
          fold (\<lambda>dy img.
            if trajectory_guard (x + of_int dx) (y + of_int dy)
            then draw_point img (py_int (x + of_int dx), py_int (y + of_int dy))
            else img) [-1..1] img) [-1..1] img)"

definition draw_current_position :: "int \<times> int \<Rightarrow> image \<Rightarrow> image" where
  "draw_current_position c img =
     (case c of (current_x, current_y) \<Rightarrow>
        fold (\<lambda>dx img.
          fold (\<lambda>dy img.
            if current_guard (current_x + dx) (current_y + dy)
            then draw_point img (current_x + dx, current_y + dy)
            else img) [-2..2] img) [-2..2] img)"

text \<open>
  The part of \<^verbatim>\<open>create_watchy_frame_pil\<close> that paints the simulation, from the new image
  to the 5 by 5 square. The clock, date, battery and step glyphs drawn afterwards are not
  part of this development.
\<close>

definition paint_trajectory :: "real list \<times> real list \<Rightarrow> error + image" where
  "paint_trajectory c =
     (case c of (screen_x, screen_y) \<Rightarrow>
        (let img = fold draw_trajectory_point (zip screen_x screen_y) Image_new
         in if length screen_x > 0
            then (if screen_y = [] then Inl IndexError
                  else Inr (draw_current_position
                              (py_int (last screen_x), py_int (last screen_y)) img))
            else Inr img))"

subsection \<open>Runs of integration steps and pushes\<close>

text \<open>
  The two state-changing methods the frame loop calls, as actions, and a run of an
  arbitrary sequence of them. \<^verbatim>\<open>simulate_frame\<close> runs the sequence that alternates them.
\<close>

datatype action = Integrate | Record

fun run_actions :: "action list \<Rightarrow> simulator \<Rightarrow> error + simulator" where
  "run_actions [] s = Inr s"
| "run_actions (Integrate # as) s = run_actions as (update_lorenz s)"
| "run_actions (Record # as) s =
     (case add_trajectory_point s of
        Inl e \<Rightarrow> Inl e
      | Inr s' \<Rightarrow> run_actions as s')"

subsection \<open>The simulator with arrays by reference\<close>

text \<open>
  \<^verbatim>\<open>self.pos += ...\<close> adds to the numpy array in place, and a Python list holds
  references to its elements. Here the arrays live in a store, \<^verbatim>\<open>self.pos\<close> and the
  elements of \<^verbatim>\<open>self.trajectory\<close> are references into it, and \<^verbatim>\<open>.copy()\<close> allocates a
  new array. References are handed out in increasing order; \<open>fresh\<close> is the next one.
\<close>

type_synonym ref = nat

record object_simulator =
  arrays :: "ref \<Rightarrow> vec3"
  fresh :: ref
  self_sigma :: real
  self_rho :: real
  self_beta :: real
  self_dt :: real
  self_pos :: ref
  self_max_points :: int
  self_trajectory :: "ref list"
  self_rotation_angle :: real
  self_display_width :: int
  self_display_height :: int

definition LorenzSimulator_init_object :: object_simulator where
  "LorenzSimulator_init_object =
     \<lparr> arrays = (\<lambda>_. (0, 0, 0))(0 := (1, 1, 1)), fresh = 1,
       self_sigma = 10, self_rho = 28, self_beta = 8 / 3, self_dt = 5 / 100,
       self_pos = 0,
       self_max_points = 300, self_trajectory = [], self_rotation_angle = 0,
       self_display_width = 200, self_display_height = 200 \<rparr>"

text \<open>The simulator an object stands for: every reference replaced by the array it holds.\<close>

definition contents :: "object_simulator \<Rightarrow> simulator" where
  "contents obj =
     \<lparr> sigma = self_sigma obj, rho = self_rho obj, beta = self_beta obj, dt = self_dt obj,
       pos = arrays obj (self_pos obj),
       max_points = self_max_points obj,
       trajectory = map (arrays obj) (self_trajectory obj),
       rotation_angle = self_rotation_angle obj,
       display_width = self_display_width obj, display_height = self_display_height obj \<rparr>"

text \<open>
  The stage evaluations build new arrays and leave the store as it is; the last line
  writes into the array \<^verbatim>\<open>self.pos\<close> refers to.
\<close>

definition update_lorenz_object :: "object_simulator \<Rightarrow> object_simulator" where
  "update_lorenz_object obj =
     (let s = contents obj;
          p = arrays obj (self_pos obj);
          k1 = lorenz_derivative s p;
          k2 = lorenz_derivative s (vadd p (vdiv (vmul k1 (self_dt obj)) 2));
          k3 = lorenz_derivative s (vadd p (vdiv (vmul k2 (self_dt obj)) 2));
          k4 = lorenz_derivative s (vadd p (vmul k3 (self_dt obj)))
      in obj\<lparr>arrays := (arrays obj)(self_pos obj := vadd p
             (vdiv (vmul (vadd (vadd (vadd k1 (smul 2 k2)) (smul 2 k3)) k4) (self_dt obj)) 6))\<rparr>)"

text \<open>\<^verbatim>\<open>self.pos.copy()\<close>: a new array with the contents of the state, and its reference.\<close>

definition copy_pos :: "object_simulator \<Rightarrow> ref \<times> object_simulator" where
  "copy_pos obj =
     (fresh obj,
      obj\<lparr>arrays := (arrays obj)(fresh obj := arrays obj (self_pos obj)),
          fresh := Suc (fresh obj)\<rparr>)"

definition add_trajectory_point_object :: "object_simulator \<Rightarrow> error + object_simulator" where
  "add_trajectory_point_object obj =
     (if int (length (self_trajectory obj)) < self_max_points obj
      then (case copy_pos obj of (r, obj') \<Rightarrow>
              Inr (obj'\<lparr>self_trajectory := self_trajectory obj' @ [r]\<rparr>))
      else (case self_trajectory obj of
              [] \<Rightarrow> Inl IndexError
            | _ # rest \<Rightarrow>
                (case copy_pos (obj\<lparr>self_trajectory := rest\<rparr>) of (r, obj') \<Rightarrow>
                   Inr (obj'\<lparr>self_trajectory := self_trajectory obj' @ [r]\<rparr>))))"

fun run_actions_object :: "action list \<Rightarrow> object_simulator \<Rightarrow> error + object_simulator" where
  "run_actions_object [] obj = Inr obj"
| "run_actions_object (Integrate # as) obj = run_actions_object as (update_lorenz_object obj)"
| "run_actions_object (Record # as) obj =
     (case add_trajectory_point_object obj of
        Inl e \<Rightarrow> Inl e
      | Inr obj' \<Rightarrow> run_actions_object as obj')"

text \<open>
  Every reference in use has been handed out, and no recorded point is the array of the
  state.
\<close>

definition separate :: "object_simulator \<Rightarrow> bool" where
  "separate obj \<longleftrightarrow>
     self_pos obj < fresh obj \<and>
     list_all (\<lambda>r. r < fresh obj \<and> r \<noteq> self_pos obj) (self_trajectory obj)"

subsection \<open>Polynomials by their coefficients\<close>

text \<open>
  Used for the view angle only: that the angle never equals a full turn rests on \<open>pi\<close>
  being no ratio of integers, which is proved below from a polynomial and its
  derivatives. \<open>poly_diff c M j\<close> is the \<open>j\<close>-th derivative of the polynomial with
  coefficients \<open>c\<close> below degree \<open>M\<close>; \<open>alternating_sum\<close> is the alternating sum of its
  derivatives of order \<open>i\<close>, \<open>i + 2\<close>, \<open>i + 4\<close> and so on; \<open>niven_coeff a b n\<close> are the
  coefficients of \<open>x ^ n * (a - b * x) ^ n / fact n\<close>.
\<close>

definition poly_diff :: "(nat \<Rightarrow> real) \<Rightarrow> nat \<Rightarrow> nat \<Rightarrow> real \<Rightarrow> real" where
  "poly_diff c M j x = (\<Sum>k<M. (diffs ^^ j) c k * x ^ k)"

definition alternating_sum :: "(nat \<Rightarrow> real) \<Rightarrow> nat \<Rightarrow> nat \<Rightarrow> nat \<Rightarrow> real \<Rightarrow> real" where
  "alternating_sum c M n i x = (\<Sum>j\<le>n. (- 1) ^ j * poly_diff c M (2 * j + i) x)"

definition niven_coeff :: "nat \<Rightarrow> nat \<Rightarrow> nat \<Rightarrow> nat \<Rightarrow> real" where
  "niven_coeff a b n k =
     (if n \<le> k \<and> k \<le> 2 * n
      then of_int (int (n choose (k - n)) * (- int b) ^ (k - n) * int a ^ (2 * n - k)) / fact n
      else 0)"

section \<open>Properties\<close>

subsection \<open>The integration step\<close>

lemma lorenz_derivative_classic:
  "classic_constants s \<Longrightarrow> lorenz_derivative s p = spec_lorenz_field p"
  by (simp add: classic_constants_def lorenz_derivative_def spec_lorenz_field_def
      split: prod.splits)

lemma advance_half: "vadd p (vdiv (vmul k h) 2) = spec_advance p (h / 2) k"
  by (cases p; cases k) (simp add: spec_advance_def)

lemma advance_full: "vadd p (vmul k h) = spec_advance p h k"
  by (cases p; cases k) (simp add: spec_advance_def mult.commute)

lemma weighted_sum:
  "vadd (x, y, z)
     (vdiv (vmul (vadd (vadd (vadd (ax, ay, az) (smul 2 (bx, by, bz))) (smul 2 (cx, cy, cz)))
        (dx, dy, dz)) h) 6)
   = (x + (ax + 2 * bx + 2 * cx + dx) * h / 6,
      y + (ay + 2 * by + 2 * cy + dy) * h / 6,
      z + (az + 2 * bz + 2 * cz + dz) * h / 6)"
  by simp

text \<open>
  C1. For every state vector, one integration step computes the four Runge-Kutta stage
  evaluations of the Lorenz field with \<open>sigma = 10\<close>, \<open>rho = 28\<close>, \<open>beta = 8/3\<close> and
  \<open>dt = 0.05\<close> (k1 at the state, k2 and k3 at the state advanced by half of dt times the
  previous stage, k4 at the state advanced by dt times k3) and returns the state plus
  \<open>(k1 + 2 k2 + 2 k3 + k4) dt / 6\<close>; nothing else of the simulator changes.
\<close>

theorem update_lorenz_is_rk4:
  assumes "classic_constants s"
  shows "update_lorenz s = s\<lparr>pos := spec_rk4_step (pos s)\<rparr>"
proof -
  have dt: "dt s = 5 / 100"
    using assms by (simp add: classic_constants_def)
  obtain x y z where p: "pos s = (x, y, z)"
    by (cases "pos s")
  obtain ax ay az where k1: "spec_lorenz_field (x, y, z) = (ax, ay, az)"
    by (cases "spec_lorenz_field (x, y, z)")
  obtain bx "by" bz where
    k2: "spec_lorenz_field (spec_advance (x, y, z) (5 / 100 / 2) (ax, ay, az)) = (bx, by, bz)"
    by (cases "spec_lorenz_field (spec_advance (x, y, z) (5 / 100 / 2) (ax, ay, az))")
  obtain cx cy cz where
    k3: "spec_lorenz_field (spec_advance (x, y, z) (5 / 100 / 2) (bx, by, bz)) = (cx, cy, cz)"
    by (cases "spec_lorenz_field (spec_advance (x, y, z) (5 / 100 / 2) (bx, by, bz))")
  obtain dx dy dz where
    k4: "spec_lorenz_field (spec_advance (x, y, z) (5 / 100) (cx, cy, cz)) = (dx, dy, dz)"
    by (cases "spec_lorenz_field (spec_advance (x, y, z) (5 / 100) (cx, cy, cz))")
  have "pos (update_lorenz s) = spec_rk4_step (pos s)"
    unfolding update_lorenz_def spec_rk4_step_def Let_def
      lorenz_derivative_classic [OF assms] advance_half advance_full dt p
    by (simp only: k1 k2 k3 k4 weighted_sum prod.case) simp
  then show ?thesis
    by (simp add: update_lorenz_def Let_def)
qed

theorem update_lorenz_is_rk4_witness:
  "classic_constants LorenzSimulator_init \<and>
   update_lorenz LorenzSimulator_init =
     LorenzSimulator_init\<lparr>pos := spec_rk4_step (pos LorenzSimulator_init)\<rparr>"
  using update_lorenz_is_rk4 [of LorenzSimulator_init]
  by (simp add: classic_constants_def LorenzSimulator_init_def)

lemma update_lorenz_reads:
  assumes "pos s1 = pos s2" "sigma s1 = sigma s2" "rho s1 = rho s2" "beta s1 = beta s2"
    "dt s1 = dt s2"
  shows "pos (update_lorenz s1) = pos (update_lorenz s2)"
    and "sigma (update_lorenz s1) = sigma (update_lorenz s2)"
    and "rho (update_lorenz s1) = rho (update_lorenz s2)"
    and "beta (update_lorenz s1) = beta (update_lorenz s2)"
    and "dt (update_lorenz s1) = dt (update_lorenz s2)"
  using assms by (simp_all add: update_lorenz_def lorenz_derivative_def Let_def)

text \<open>
  C8. Two runs of \<open>n\<close> integration steps that start from the same state with the same
  constants and step size visit the same states: the step reads the state, the three
  constants and \<open>dt\<close>, and nothing else of the simulator (not the trajectory, the view
  angle, the buffer capacity or the display size).
\<close>

theorem integration_deterministic:
  assumes "pos s1 = pos s2" "sigma s1 = sigma s2" "rho s1 = rho s2" "beta s1 = beta s2"
    "dt s1 = dt s2"
  shows "state_sequence n s1 = state_sequence n s2"
  using assms
proof (induction n arbitrary: s1 s2)
  case 0
  show ?case by simp
next
  case (Suc n)
  note same = update_lorenz_reads [OF Suc.prems]
  from Suc.IH [OF same] same(1) show ?case
    by simp
qed

theorem integration_deterministic_witness:
  "pos LorenzSimulator_init = pos (LorenzSimulator_init\<lparr>trajectory := [(0, 0, 0)], rotation_angle := 1\<rparr>) \<and>
   state_sequence 3 LorenzSimulator_init =
     state_sequence 3 (LorenzSimulator_init\<lparr>trajectory := [(0, 0, 0)], rotation_angle := 1\<rparr>)"
  using integration_deterministic
    [of LorenzSimulator_init "LorenzSimulator_init\<lparr>trajectory := [(0, 0, 0)], rotation_angle := 1\<rparr>" 3]
  by simp

subsection \<open>The trajectory buffer\<close>

lemma add_trajectory_point_window:
  assumes cap: "0 < max_points s" and len: "int (length (trajectory s)) \<le> max_points s"
  shows "add_trajectory_point s =
           Inr (s\<lparr>trajectory :=
                  drop (Suc (length (trajectory s)) - nat (max_points s)) (trajectory s @ [pos s])\<rparr>)"
proof (cases "int (length (trajectory s)) < max_points s")
  case True
  then have "Suc (length (trajectory s)) - nat (max_points s) = 0"
    by linarith
  with True show ?thesis
    by (simp add: add_trajectory_point_def)
next
  case False
  with len have eq: "int (length (trajectory s)) = max_points s"
    by simp
  with cap obtain q rest where t: "trajectory s = q # rest"
    by (cases "trajectory s") auto
  from eq have "Suc (length (trajectory s)) - nat (max_points s) = 1"
    by linarith
  with False t show ?thesis
    by (simp add: add_trajectory_point_def)
qed

lemma push_points_window:
  assumes "0 < max_points s" and "int (length (trajectory s)) \<le> max_points s"
  shows "\<exists>s'. push_points ps s = Inr s' \<and> max_points s' = max_points s \<and>
           trajectory s' =
             drop (length (trajectory s) + length ps - nat (max_points s)) (trajectory s @ ps)"
  using assms
proof (induction ps arbitrary: s)
  case Nil
  then have "length (trajectory s) - nat (max_points s) = 0"
    by linarith
  then show ?case by simp
next
  case (Cons p ps)
  let ?s0 = "s\<lparr>pos := p\<rparr>"
  let ?k = "Suc (length (trajectory s)) - nat (max_points s)"
  let ?t = "drop ?k (trajectory s @ [p])"
  let ?s1 = "?s0\<lparr>trajectory := ?t\<rparr>"
  have step: "add_trajectory_point ?s0 = Inr ?s1"
    using add_trajectory_point_window [of ?s0] Cons.prems by simp
  have k: "?k \<le> Suc (length (trajectory s))"
    by simp
  have len1: "int (length (trajectory ?s1)) \<le> max_points ?s1"
    using Cons.prems by simp
  have cap1: "0 < max_points ?s1"
    using Cons.prems by simp
  from Cons.IH [OF cap1 len1] obtain s' where
    run: "push_points ps ?s1 = Inr s'" and mp: "max_points s' = max_points s" and
    tr: "trajectory s' = drop (length ?t + length ps - nat (max_points s)) (?t @ ps)"
    by auto
  have "drop ?k ((trajectory s @ [p]) @ ps) = ?t @ ps"
    by (subst drop_append) simp
  then have "?t @ ps = drop ?k (trajectory s @ p # ps)"
    by simp
  moreover have "?k + (length ?t + length ps - nat (max_points s))
      = length (trajectory s) + length (p # ps) - nat (max_points s)"
    using Cons.prems by simp
  ultimately have "trajectory s' =
      drop (length (trajectory s) + length (p # ps) - nat (max_points s)) (trajectory s @ p # ps)"
    using tr by (simp only: drop_drop add.commute)
  with run mp step show ?case
    by simp
qed

text \<open>
  C2. Starting from the empty buffer with capacity 300, after any sequence of pushes the
  buffer holds \<open>min k 300\<close> points, where \<open>k\<close> is the number of pushes, and they are the
  last \<open>min k 300\<close> pushed points in push order; no push fails.
\<close>

theorem trajectory_buffer_window:
  assumes "max_points s = 300" and "trajectory s = []"
  shows "\<exists>s'. push_points ps s = Inr s' \<and>
           length (trajectory s') = min (length ps) 300 \<and>
           trajectory s' = drop (length ps - 300) ps"
proof -
  from push_points_window [of s ps] assms obtain s' where
    "push_points ps s = Inr s'" and "trajectory s' = drop (length ps - 300) ps"
    by auto
  then show ?thesis
    by auto
qed

theorem trajectory_buffer_window_witness:
  "max_points LorenzSimulator_init = 300 \<and> trajectory LorenzSimulator_init = [] \<and>
   (\<exists>s'. push_points (replicate 300 (0, 0, 0) @ [(1, 1, 1)]) LorenzSimulator_init = Inr s' \<and>
      length (trajectory s') = 300 \<and>
      trajectory s' = replicate 299 (0, 0, 0) @ [(1, 1, 1)])"
  using trajectory_buffer_window [of LorenzSimulator_init "replicate 300 (0, 0, 0) @ [(1, 1, 1)]"]
  by (simp add: LorenzSimulator_init_def)

subsection \<open>The projection\<close>

lemma amin_Min: "xs \<noteq> [] \<Longrightarrow> amin xs = Min (set xs)"
  by (cases xs) (simp_all add: Min.set_eq_fold [symmetric] del: set_simps)

lemma amax_Max: "xs \<noteq> [] \<Longrightarrow> amax xs = Max (set xs)"
  by (cases xs) (simp_all add: Max.set_eq_fold [symmetric] del: set_simps)

lemma amin_le: "v \<in> set xs \<Longrightarrow> amin xs \<le> v"
  by (cases "xs = []") (simp_all add: amin_Min)

lemma amax_ge: "v \<in> set xs \<Longrightarrow> v \<le> amax xs"
  by (cases "xs = []") (simp_all add: amax_Max)

lemma amin_in: "xs \<noteq> [] \<Longrightarrow> amin xs \<in> set xs"
  by (simp add: amin_Min)

lemma amax_in: "xs \<noteq> [] \<Longrightarrow> amax xs \<in> set xs"
  by (simp add: amax_Max)

lemma get_screen_coordinates_eq:
  assumes "trajectory s \<noteq> []"
  shows "get_screen_coordinates s =
    (clip (map (\<lambda>v. (v - center_x s) * fit_scale s + 100) (rotated_x s)) 5 195,
     clip (map (\<lambda>v. (v - center_y s) * fit_scale s + 100) (rotated_y s)) 5 195)"
  using assms
  by (simp add: get_screen_coordinates_def Let_def rotated_x_def rotated_y_def range_x_def
      range_y_def guarded_range_x_def guarded_range_y_def center_x_def center_y_def
      fit_scale_def comp_def)

lemma clip_bounds: "v \<in> set (clip a 5 195) \<Longrightarrow> 5 \<le> v \<and> v \<le> 195"
  by (auto simp: clip_def)

lemma length_clip: "length (clip a lo hi) = length a"
  by (simp add: clip_def)

lemma guarded_range_x_ge: "1 / 10 \<le> guarded_range_x s"
  by (simp add: guarded_range_x_def)

lemma guarded_range_y_ge: "1 / 10 \<le> guarded_range_y s"
  by (simp add: guarded_range_y_def)

lemma screen_coordinates_bounds:
  "v \<in> set (fst (get_screen_coordinates s)) \<Longrightarrow> 5 \<le> v \<and> v \<le> 195"
  "v \<in> set (snd (get_screen_coordinates s)) \<Longrightarrow> 5 \<le> v \<and> v \<le> 195"
proof -
  show "v \<in> set (fst (get_screen_coordinates s)) \<Longrightarrow> 5 \<le> v \<and> v \<le> 195"
  proof (cases "trajectory s = []")
    case True
    assume "v \<in> set (fst (get_screen_coordinates s))"
    with True show ?thesis
      by (simp add: get_screen_coordinates_def)
  next
    case False
    assume "v \<in> set (fst (get_screen_coordinates s))"
    then show ?thesis
      unfolding get_screen_coordinates_eq [OF False] fst_conv by (rule clip_bounds)
  qed
  show "v \<in> set (snd (get_screen_coordinates s)) \<Longrightarrow> 5 \<le> v \<and> v \<le> 195"
  proof (cases "trajectory s = []")
    case True
    assume "v \<in> set (snd (get_screen_coordinates s))"
    with True show ?thesis
      by (simp add: get_screen_coordinates_def)
  next
    case False
    assume "v \<in> set (snd (get_screen_coordinates s))"
    then show ?thesis
      unfolding get_screen_coordinates_eq [OF False] snd_conv by (rule clip_bounds)
  qed
qed

lemma screen_coordinates_length:
  "length (fst (get_screen_coordinates s)) = length (trajectory s)"
  "length (snd (get_screen_coordinates s)) = length (trajectory s)"
proof -
  show "length (fst (get_screen_coordinates s)) = length (trajectory s)"
  proof (cases "trajectory s = []")
    case True
    then show ?thesis by (simp add: get_screen_coordinates_def)
  next
    case False
    show ?thesis
      unfolding get_screen_coordinates_eq [OF False] by (simp add: length_clip rotated_x_def)
  qed
  show "length (snd (get_screen_coordinates s)) = length (trajectory s)"
  proof (cases "trajectory s = []")
    case True
    then show ?thesis by (simp add: get_screen_coordinates_def)
  next
    case False
    show ?thesis
      unfolding get_screen_coordinates_eq [OF False] by (simp add: length_clip rotated_y_def)
  qed
qed

text \<open>
  C3. For every non-empty trajectory and every view angle the projection returns one
  coordinate pair per trajectory point, every coordinate lies in \<open>[5, 195]\<close>, and both
  divisions that give the scale are by a range of at least \<open>0.1\<close>: a range of the rotated
  bounding box below \<open>0.1\<close> is replaced by \<open>0.1\<close>.
\<close>

theorem projection_fits:
  assumes "trajectory s \<noteq> []"
  shows "length (fst (get_screen_coordinates s)) = length (trajectory s) \<and>
         length (snd (get_screen_coordinates s)) = length (trajectory s) \<and>
         (\<forall>v \<in> set (fst (get_screen_coordinates s)). 5 \<le> v \<and> v \<le> 195) \<and>
         (\<forall>v \<in> set (snd (get_screen_coordinates s)). 5 \<le> v \<and> v \<le> 195) \<and>
         get_screen_coordinates s =
           (clip (map (\<lambda>v. (v - center_x s) * min (80 / guarded_range_x s) (80 / guarded_range_y s) + 100)
              (rotated_x s)) 5 195,
            clip (map (\<lambda>v. (v - center_y s) * min (80 / guarded_range_x s) (80 / guarded_range_y s) + 100)
              (rotated_y s)) 5 195) \<and>
         1 / 10 \<le> guarded_range_x s \<and> 1 / 10 \<le> guarded_range_y s \<and>
         (range_x s < 1 / 10 \<longrightarrow> guarded_range_x s = 1 / 10) \<and>
         (range_y s < 1 / 10 \<longrightarrow> guarded_range_y s = 1 / 10)"
proof -
  note eq = get_screen_coordinates_eq [OF assms]
  have "length (fst (get_screen_coordinates s)) = length (trajectory s)"
    by (simp add: eq length_clip rotated_x_def)
  moreover have "length (snd (get_screen_coordinates s)) = length (trajectory s)"
    by (simp add: eq length_clip rotated_y_def)
  moreover have "\<forall>v \<in> set (fst (get_screen_coordinates s)). 5 \<le> v \<and> v \<le> 195"
    unfolding eq fst_conv using clip_bounds by blast
  moreover have "\<forall>v \<in> set (snd (get_screen_coordinates s)). 5 \<le> v \<and> v \<le> 195"
    unfolding eq snd_conv using clip_bounds by blast
  moreover note eq [unfolded fit_scale_def] guarded_range_x_ge guarded_range_y_ge
  moreover have "range_x s < 1 / 10 \<longrightarrow> guarded_range_x s = 1 / 10"
    by (simp add: guarded_range_x_def)
  moreover have "range_y s < 1 / 10 \<longrightarrow> guarded_range_y s = 1 / 10"
    by (simp add: guarded_range_y_def)
  ultimately show ?thesis
    by blast
qed

theorem projection_fits_witness:
  "trajectory (LorenzSimulator_init\<lparr>trajectory := [(1, 1, 1), (1, 1, 1)]\<rparr>) \<noteq> [] \<and>
   range_x (LorenzSimulator_init\<lparr>trajectory := [(1, 1, 1), (1, 1, 1)]\<rparr>) < 1 / 10 \<and>
   range_y (LorenzSimulator_init\<lparr>trajectory := [(1, 1, 1), (1, 1, 1)]\<rparr>) < 1 / 10 \<and>
   guarded_range_x (LorenzSimulator_init\<lparr>trajectory := [(1, 1, 1), (1, 1, 1)]\<rparr>) = 1 / 10 \<and>
   guarded_range_y (LorenzSimulator_init\<lparr>trajectory := [(1, 1, 1), (1, 1, 1)]\<rparr>) = 1 / 10 \<and>
   length (fst (get_screen_coordinates (LorenzSimulator_init\<lparr>trajectory := [(1, 1, 1), (1, 1, 1)]\<rparr>))) = length (trajectory (LorenzSimulator_init\<lparr>trajectory := [(1, 1, 1), (1, 1, 1)]\<rparr>)) \<and>
   length (snd (get_screen_coordinates (LorenzSimulator_init\<lparr>trajectory := [(1, 1, 1), (1, 1, 1)]\<rparr>))) = length (trajectory (LorenzSimulator_init\<lparr>trajectory := [(1, 1, 1), (1, 1, 1)]\<rparr>)) \<and>
   100 \<in> set (fst (get_screen_coordinates (LorenzSimulator_init\<lparr>trajectory := [(1, 1, 1), (1, 1, 1)]\<rparr>))) \<and>
   100 \<in> set (snd (get_screen_coordinates (LorenzSimulator_init\<lparr>trajectory := [(1, 1, 1), (1, 1, 1)]\<rparr>))) \<and>
   (5 :: real) \<le> 100 \<and> (100 :: real) \<le> 195"
proof -
  have r: "range_x (LorenzSimulator_init\<lparr>trajectory := [(1, 1, 1), (1, 1, 1)]\<rparr>) = 0" "range_y (LorenzSimulator_init\<lparr>trajectory := [(1, 1, 1), (1, 1, 1)]\<rparr>) = 0"
    by (simp_all add: range_x_def range_y_def rotated_x_def rotated_y_def)
  have lt: "range_x (LorenzSimulator_init\<lparr>trajectory := [(1, 1, 1), (1, 1, 1)]\<rparr>) < 1 / 10" "range_y (LorenzSimulator_init\<lparr>trajectory := [(1, 1, 1), (1, 1, 1)]\<rparr>) < 1 / 10"
    by (simp_all add: r)
  have t: "trajectory (LorenzSimulator_init\<lparr>trajectory := [(1, 1, 1), (1, 1, 1)]\<rparr>) \<noteq> []"
    by simp
  have m: "100 \<in> set (fst (get_screen_coordinates (LorenzSimulator_init\<lparr>trajectory := [(1, 1, 1), (1, 1, 1)]\<rparr>)))"
    "100 \<in> set (snd (get_screen_coordinates (LorenzSimulator_init\<lparr>trajectory := [(1, 1, 1), (1, 1, 1)]\<rparr>)))"
    by (simp_all add: get_screen_coordinates_def Let_def clip_def)
  from projection_fits [OF t] lt t m show ?thesis
    by blast
qed

subsection \<open>Uniform scaling of the input\<close>















subsection \<open>Painting\<close>

lemma py_int_floor: "0 \<le> r \<Longrightarrow> py_int r = \<lfloor>r\<rfloor>"
  by (simp add: py_int_def)

lemma trajectory_stroke_inside:
  assumes x: "5 \<le> x" "x \<le> 195" and y: "5 \<le> y" "y \<le> 195"
    and dx: "dx \<in> set [-1..1]" and dy: "dy \<in> set [-1..1]"
  shows "trajectory_guard (x + of_int dx) (y + of_int dy) \<and>
         in_frame (py_int (x + of_int dx), py_int (y + of_int dy))"
proof -
  from dx dy have d: "-1 \<le> dx" "dx \<le> 1" "-1 \<le> dy" "dy \<le> 1"
    by (simp_all only: set_upto atLeastAtMost_iff)
  then have r: "-1 \<le> (of_int dx :: real)" "(of_int dx :: real) \<le> 1"
    "-1 \<le> (of_int dy :: real)" "(of_int dy :: real) \<le> 1"
    by linarith+
  from x y r have u: "4 \<le> x + of_int dx" "x + of_int dx \<le> 196"
    and v: "4 \<le> y + of_int dy" "y + of_int dy \<le> 196"
    by linarith+
  then have "0 \<le> \<lfloor>x + of_int dx\<rfloor>" "\<lfloor>x + of_int dx\<rfloor> < 200"
    "0 \<le> \<lfloor>y + of_int dy\<rfloor>" "\<lfloor>y + of_int dy\<rfloor> < 200"
    by linarith+
  with u v show ?thesis
    by (simp add: trajectory_guard_def in_frame_def py_int_floor)
qed

lemma current_stroke_inside:
  assumes x: "5 \<le> x" "x \<le> 195" and y: "5 \<le> y" "y \<le> 195"
    and dx: "dx \<in> set [-2..2]" and dy: "dy \<in> set [-2..2]"
  shows "current_guard (py_int x + dx) (py_int y + dy) \<and>
         in_frame (py_int x + dx, py_int y + dy)"
proof -
  from dx dy have d: "-2 \<le> dx" "dx \<le> 2" "-2 \<le> dy" "dy \<le> 2"
    by (simp_all only: set_upto atLeastAtMost_iff)
  from x y have "5 \<le> \<lfloor>x\<rfloor>" "\<lfloor>x\<rfloor> \<le> 195" "5 \<le> \<lfloor>y\<rfloor>" "\<lfloor>y\<rfloor> \<le> 195"
    by linarith+
  with d have "0 \<le> \<lfloor>x\<rfloor> + dx" "\<lfloor>x\<rfloor> + dx < 200" "0 \<le> \<lfloor>y\<rfloor> + dy" "\<lfloor>y\<rfloor> + dy < 200"
    by linarith+
  moreover from x y have "py_int x = \<lfloor>x\<rfloor>" "py_int y = \<lfloor>y\<rfloor>"
    by (simp_all add: py_int_floor)
  ultimately show ?thesis
    by (simp add: current_guard_def in_frame_def)
qed

text \<open>
  C10. On the coordinates the projection returns, every sub-pixel of every 3 by 3
  trajectory stroke and of the 5 by 5 stroke at the last point passes the bounds test of
  the painter and lies inside the 200 by 200 frame: the painter never skips a sub-pixel.
\<close>

theorem strokes_inside_frame:
  "(\<forall>c \<in> set (zip (fst (get_screen_coordinates s)) (snd (get_screen_coordinates s))).
      \<forall>dx \<in> set [-1..1]. \<forall>dy \<in> set [-1..1].
        trajectory_guard (fst c + of_int dx) (snd c + of_int dy) \<and>
        in_frame (py_int (fst c + of_int dx), py_int (snd c + of_int dy))) \<and>
   (length (fst (get_screen_coordinates s)) > 0 \<longrightarrow>
      (\<forall>dx \<in> set [-2..2]. \<forall>dy \<in> set [-2..2].
         current_guard (py_int (last (fst (get_screen_coordinates s))) + dx)
           (py_int (last (snd (get_screen_coordinates s))) + dy) \<and>
         in_frame (py_int (last (fst (get_screen_coordinates s))) + dx,
           py_int (last (snd (get_screen_coordinates s))) + dy)))"
proof (intro conjI ballI impI)
  fix c dx dy
  assume c: "c \<in> set (zip (fst (get_screen_coordinates s)) (snd (get_screen_coordinates s)))"
    and d: "dx \<in> set [-1..1]" "dy \<in> set [-1..1]"
  obtain a b where ab: "c = (a, b)"
    by (cases c)
  from c have "fst c \<in> set (fst (get_screen_coordinates s))"
    and "snd c \<in> set (snd (get_screen_coordinates s))"
    unfolding ab fst_conv snd_conv by (rule set_zip_leftD, rule set_zip_rightD)
  then have b: "5 \<le> fst c \<and> fst c \<le> 195" "5 \<le> snd c \<and> snd c \<le> 195"
    by (simp_all add: screen_coordinates_bounds)
  from trajectory_stroke_inside [of "fst c" "snd c" dx dy] b d
  show "trajectory_guard (fst c + of_int dx) (snd c + of_int dy)"
    and "in_frame (py_int (fst c + of_int dx), py_int (snd c + of_int dy))"
    by simp_all
next
  fix dx dy
  assume ne: "length (fst (get_screen_coordinates s)) > 0"
    and d: "dx \<in> set [-2..2]" "dy \<in> set [-2..2]"
  from ne have "fst (get_screen_coordinates s) \<noteq> []" "snd (get_screen_coordinates s) \<noteq> []"
    using screen_coordinates_length [of s] by auto
  then have "last (fst (get_screen_coordinates s)) \<in> set (fst (get_screen_coordinates s))"
    and "last (snd (get_screen_coordinates s)) \<in> set (snd (get_screen_coordinates s))"
    by simp_all
  then have b: "5 \<le> last (fst (get_screen_coordinates s)) \<and> last (fst (get_screen_coordinates s)) \<le> 195"
    "5 \<le> last (snd (get_screen_coordinates s)) \<and> last (snd (get_screen_coordinates s)) \<le> 195"
    by (simp_all add: screen_coordinates_bounds)
  from current_stroke_inside [of "last (fst (get_screen_coordinates s))"
      "last (snd (get_screen_coordinates s))" dx dy] b d
  show "current_guard (py_int (last (fst (get_screen_coordinates s))) + dx)
           (py_int (last (snd (get_screen_coordinates s))) + dy)"
    and "in_frame (py_int (last (fst (get_screen_coordinates s))) + dx,
           py_int (last (snd (get_screen_coordinates s))) + dy)"
    by simp_all
qed

theorem strokes_inside_frame_witness:
  "(100, 100) \<in> set (zip (fst (get_screen_coordinates (LorenzSimulator_init\<lparr>trajectory := [(1, 1, 1)]\<rparr>))) (snd (get_screen_coordinates (LorenzSimulator_init\<lparr>trajectory := [(1, 1, 1)]\<rparr>)))) \<and>
   - 1 \<in> set [-1..1] \<and> 1 \<in> set [-1..1] \<and>
   trajectory_guard (fst (100 :: real, 100 :: real) + of_int (- 1))
     (snd (100 :: real, 100 :: real) + of_int 1) \<and>
   in_frame (py_int (fst (100 :: real, 100 :: real) + of_int (- 1)),
     py_int (snd (100 :: real, 100 :: real) + of_int 1)) \<and>
   length (fst (get_screen_coordinates (LorenzSimulator_init\<lparr>trajectory := [(1, 1, 1)]\<rparr>))) > 0 \<and>
   2 \<in> set [-2..2] \<and> - 2 \<in> set [-2..2] \<and>
   current_guard (py_int (last (fst (get_screen_coordinates (LorenzSimulator_init\<lparr>trajectory := [(1, 1, 1)]\<rparr>)))) + 2) (py_int (last (snd (get_screen_coordinates (LorenzSimulator_init\<lparr>trajectory := [(1, 1, 1)]\<rparr>)))) + - 2) \<and>
   in_frame (py_int (last (fst (get_screen_coordinates (LorenzSimulator_init\<lparr>trajectory := [(1, 1, 1)]\<rparr>)))) + 2, py_int (last (snd (get_screen_coordinates (LorenzSimulator_init\<lparr>trajectory := [(1, 1, 1)]\<rparr>)))) + - 2)"
proof -
  have c: "get_screen_coordinates (LorenzSimulator_init\<lparr>trajectory := [(1, 1, 1)]\<rparr>) = ([100], [100])"
    by (simp add: get_screen_coordinates_def Let_def clip_def)
  have m: "(100, 100) \<in> set (zip (fst (get_screen_coordinates (LorenzSimulator_init\<lparr>trajectory := [(1, 1, 1)]\<rparr>))) (snd (get_screen_coordinates (LorenzSimulator_init\<lparr>trajectory := [(1, 1, 1)]\<rparr>))))"
    and l: "length (fst (get_screen_coordinates (LorenzSimulator_init\<lparr>trajectory := [(1, 1, 1)]\<rparr>))) > 0"
    by (simp_all add: c)
  have d: "- 1 \<in> set [-1..1]" "1 \<in> set [-1..1]" "2 \<in> set [-2..2]" "- 2 \<in> set [-2..2]"
    by (simp_all only: set_upto atLeastAtMost_iff) simp_all
  from strokes_inside_frame [of "LorenzSimulator_init\<lparr>trajectory := [(1, 1, 1)]\<rparr>"] m l d show ?thesis
    by blast
qed

lemma fold_paints:
  assumes "\<And>d img q. d \<in> set ds \<Longrightarrow> T d img q = (if q \<in> S d then 0 else img q)"
  shows "fold T ds img q = (if q \<in> (\<Union>d \<in> set ds. S d) then (0::nat) else img q)"
  using assms
proof (induction ds arbitrary: img)
  case Nil
  show ?case by simp
next
  case (Cons d ds)
  have "fold T (d # ds) img q = fold T ds (T d img) q"
    by simp
  also have "\<dots> = (if q \<in> (\<Union>d \<in> set ds. S d) then 0 else T d img q)"
    by (rule Cons.IH) (simp add: Cons.prems)
  also have "T d img q = (if q \<in> S d then 0 else img q)"
    by (simp add: Cons.prems)
  finally show ?case
    by auto
qed

lemma draw_point_paints:
  "draw_point img p q = (if q \<in> (if in_frame p then {p} else {}) then 0 else img q)"
  by (simp add: draw_point_def)

lemma trajectory_row_paints:
  "fold (\<lambda>dy img.
      if trajectory_guard (x + of_int dx) (y + of_int dy)
      then draw_point img (py_int (x + of_int dx), py_int (y + of_int dy))
      else img) ds img q =
     (if q \<in> (\<Union>dy \<in> set ds.
          if trajectory_guard (x + of_int dx) (y + of_int dy) \<and>
             in_frame (py_int (x + of_int dx), py_int (y + of_int dy))
          then {(py_int (x + of_int dx), py_int (y + of_int dy))} else {})
      then 0 else img q)"
  by (rule fold_paints) (simp add: draw_point_paints)

lemma draw_trajectory_point_paints:
  "draw_trajectory_point (x, y) img q =
     (if q \<in> (\<Union>dx \<in> set [-1..1]. \<Union>dy \<in> set [-1..1].
          if trajectory_guard (x + of_int dx) (y + of_int dy) \<and>
             in_frame (py_int (x + of_int dx), py_int (y + of_int dy))
          then {(py_int (x + of_int dx), py_int (y + of_int dy))} else {})
      then 0 else img q)"
  unfolding draw_trajectory_point_def prod.case
  by (rule fold_paints) (rule trajectory_row_paints)

lemma current_row_paints:
  "fold (\<lambda>dy img.
      if current_guard (cx + dx) (cy + dy) then draw_point img (cx + dx, cy + dy) else img)
      ds img q =
     (if q \<in> (\<Union>dy \<in> set ds.
          if current_guard (cx + dx) (cy + dy) \<and> in_frame (cx + dx, cy + dy)
          then {(cx + dx, cy + dy)} else {})
      then 0 else img q)"
  by (rule fold_paints) (simp add: draw_point_paints)

lemma draw_current_position_paints:
  "draw_current_position (cx, cy) img q =
     (if q \<in> (\<Union>dx \<in> set [-2..2]. \<Union>dy \<in> set [-2..2].
          if current_guard (cx + dx) (cy + dy) \<and> in_frame (cx + dx, cy + dy)
          then {(cx + dx, cy + dy)} else {})
      then 0 else img q)"
  unfolding draw_current_position_def prod.case
  by (rule fold_paints) (rule current_row_paints)

lemma single_point_projection:
  assumes "trajectory s = [p]"
  shows "get_screen_coordinates s = ([100], [100])"
  using assms by (simp add: get_screen_coordinates_def Let_def clip_def)

lemma py_int_centre: "- 100 \<le> d \<Longrightarrow> py_int (100 + of_int d) = 100 + d"
proof -
  assume "- 100 \<le> d"
  then have "0 \<le> (100 + of_int d :: real)"
    by linarith
  then have "py_int (100 + of_int d) = \<lfloor>100 + of_int d :: real\<rfloor>"
    by (rule py_int_floor)
  also have "\<dots> = 100 + d"
    by linarith
  finally show ?thesis .
qed

lemma centre_block3:
  "(\<Union>dx \<in> set [-1..1]. \<Union>dy \<in> set [-1..1].
      if trajectory_guard (100 + of_int dx) (100 + of_int dy) \<and>
         in_frame (py_int (100 + of_int dx), py_int (100 + of_int dy))
      then {(py_int (100 + of_int dx), py_int (100 + of_int dy))} else {})
   = {q. 99 \<le> fst q \<and> fst q \<le> 101 \<and> 99 \<le> snd q \<and> snd q \<le> 101}"
  (is "?L = ?R")
proof -
  have "?L = (\<Union>dx \<in> {-1..1}. \<Union>dy \<in> {-1..1}. {(100 + dx, 100 + dy)})"
    unfolding set_upto
    by (intro SUP_cong refl)
      (simp add: py_int_centre trajectory_guard_def in_frame_def)
  also have "\<dots> = ?R"
  proof (intro set_eqI iffI)
    fix q :: "int \<times> int"
    assume "q \<in> ?R"
    then have "fst q - 100 \<in> {-1..1}" "snd q - 100 \<in> {-1..1}"
      "q = (100 + (fst q - 100), 100 + (snd q - 100))"
      by auto
    then show "q \<in> (\<Union>dx \<in> {-1..1}. \<Union>dy \<in> {-1..1}. {(100 + dx, 100 + dy)})"
      by blast
  qed auto
  finally show ?thesis .
qed

lemma centre_block5:
  "(\<Union>dx \<in> set [-2..2]. \<Union>dy \<in> set [-2..2].
      if current_guard (100 + dx) (100 + dy) \<and> in_frame (100 + dx, 100 + dy)
      then {(100 + dx, 100 + dy)} else {})
   = {q. 98 \<le> fst q \<and> fst q \<le> 102 \<and> 98 \<le> snd q \<and> snd q \<le> 102}"
  (is "?L = ?R")
proof -
  have "?L = (\<Union>dx \<in> {-2..2}. \<Union>dy \<in> {-2..2}. {(100 + dx, 100 + dy)})"
    unfolding set_upto
    by (intro SUP_cong refl) (simp add: current_guard_def in_frame_def)
  also have "\<dots> = ?R"
  proof (intro set_eqI iffI)
    fix q :: "int \<times> int"
    assume "q \<in> ?R"
    then have "fst q - 100 \<in> {-2..2}" "snd q - 100 \<in> {-2..2}"
      "q = (100 + (fst q - 100), 100 + (snd q - 100))"
      by auto
    then show "q \<in> (\<Union>dx \<in> {-2..2}. \<Union>dy \<in> {-2..2}. {(100 + dx, 100 + dy)})"
      by blast
  qed auto
  finally show ?thesis .
qed

lemma py_int_100: "py_int 100 = 100"
  by (simp add: py_int_def)

text \<open>
  C6. For a trajectory of exactly one point the projection is the centre \<open>(100, 100)\<close> of
  the viewport; the trajectory stroke paints the 3 by 3 block around it, and the painted
  frame has the 5 by 5 block \<open>[98, 102] \<times> [98, 102]\<close> black, which contains the 3 by 3
  block, and every other pixel at the background value 255.
\<close>

theorem single_point_frame:
  assumes "trajectory s = [p]"
  shows "get_screen_coordinates s = ([100], [100]) \<and>
         fold draw_trajectory_point (zip [100] [100]) Image_new =
           (\<lambda>q. if 99 \<le> fst q \<and> fst q \<le> 101 \<and> 99 \<le> snd q \<and> snd q \<le> 101 then 0 else 255) \<and>
         paint_trajectory (get_screen_coordinates s) =
           Inr (\<lambda>q. if 98 \<le> fst q \<and> fst q \<le> 102 \<and> 98 \<le> snd q \<and> snd q \<le> 102 then 0 else 255)"
proof -
  note proj = single_point_projection [OF assms]
  have strokes: "fold draw_trajectory_point (zip [100] [100]) Image_new =
      (\<lambda>q. if 99 \<le> fst q \<and> fst q \<le> 101 \<and> 99 \<le> snd q \<and> snd q \<le> 101 then 0 else 255)"
  proof (rule ext)
    fix q :: "int \<times> int"
    have "fold draw_trajectory_point (zip [100] [100]) Image_new q =
        draw_trajectory_point (100, 100) Image_new q"
      by simp
    also have "\<dots> = (if 99 \<le> fst q \<and> fst q \<le> 101 \<and> 99 \<le> snd q \<and> snd q \<le> 101 then 0 else 255)"
      unfolding draw_trajectory_point_paints centre_block3 Image_new_def by simp
    finally show "fold draw_trajectory_point (zip [100] [100]) Image_new q =
        (if 99 \<le> fst q \<and> fst q \<le> 101 \<and> 99 \<le> snd q \<and> snd q \<le> 101 then 0 else 255)" .
  qed
  have "draw_current_position (100, 100)
          (\<lambda>q. if 99 \<le> fst q \<and> fst q \<le> 101 \<and> 99 \<le> snd q \<and> snd q \<le> 101 then 0 else 255) =
        (\<lambda>q. if 98 \<le> fst q \<and> fst q \<le> 102 \<and> 98 \<le> snd q \<and> snd q \<le> 102 then 0 else 255)"
    by (rule ext, unfold draw_current_position_paints centre_block5) auto
  then have "paint_trajectory ([100], [100]) =
      Inr (\<lambda>q. if 98 \<le> fst q \<and> fst q \<le> 102 \<and> 98 \<le> snd q \<and> snd q \<le> 102 then 0 else 255)"
    unfolding paint_trajectory_def prod.case Let_def strokes
    by (simp add: py_int_100)
  with proj strokes show ?thesis
    by simp
qed

theorem single_point_frame_witness:
  "trajectory (LorenzSimulator_init\<lparr>trajectory := [(1, 1, 1)]\<rparr>) = [(1, 1, 1)] \<and>
   paint_trajectory (get_screen_coordinates (LorenzSimulator_init\<lparr>trajectory := [(1, 1, 1)]\<rparr>)) =
     Inr (\<lambda>q. if 98 \<le> fst q \<and> fst q \<le> 102 \<and> 98 \<le> snd q \<and> snd q \<le> 102 then 0 else 255)"
proof -
  have t: "trajectory (LorenzSimulator_init\<lparr>trajectory := [(1, 1, 1)]\<rparr>) = [(1, 1, 1)]"
    by simp
  from single_point_frame [OF t] t show ?thesis
    by blast
qed

subsection \<open>Recorded points and the array of the state\<close>

lemma separate_pos_notin:
  "separate obj \<Longrightarrow> self_pos obj \<notin> set (self_trajectory obj)"
  by (auto simp: separate_def list_all_iff)

lemma separate_fresh_notin:
  "separate obj \<Longrightarrow> fresh obj \<notin> set (self_trajectory obj) \<and> fresh obj \<noteq> self_pos obj"
  by (auto simp: separate_def list_all_iff)

lemma map_upd_notin: "r \<notin> set rs \<Longrightarrow> map (f(r := v)) rs = map f rs"
  by (induction rs) auto

lemma update_lorenz_object_points:
  assumes "separate obj"
  shows "map (arrays (update_lorenz_object obj)) (self_trajectory obj) =
         map (arrays obj) (self_trajectory obj)"
  using separate_pos_notin [OF assms]
  by (simp add: update_lorenz_object_def Let_def map_upd_notin)

lemma update_lorenz_object_fields:
  "self_trajectory (update_lorenz_object obj) = self_trajectory obj"
  "self_pos (update_lorenz_object obj) = self_pos obj"
  "fresh (update_lorenz_object obj) = fresh obj"
  "self_max_points (update_lorenz_object obj) = self_max_points obj"
  by (simp_all add: update_lorenz_object_def Let_def)

lemma separate_update_lorenz_object:
  "separate obj \<Longrightarrow> separate (update_lorenz_object obj)"
  by (simp add: separate_def update_lorenz_object_fields)

lemma contents_update_lorenz_object:
  assumes "separate obj"
  shows "contents (update_lorenz_object obj) = update_lorenz (contents obj)"
proof -
  have "trajectory (contents (update_lorenz_object obj)) = trajectory (contents obj)"
    using update_lorenz_object_points [OF assms]
    by (simp add: contents_def update_lorenz_object_fields)
  moreover have "contents (update_lorenz_object obj)
      = (update_lorenz (contents obj))\<lparr>trajectory := trajectory (contents (update_lorenz_object obj))\<rparr>"
    by (simp add: contents_def update_lorenz_object_def update_lorenz_def Let_def lorenz_derivative_def)
  ultimately show ?thesis
    by (simp add: update_lorenz_def Let_def)
qed


lemma add_trajectory_point_object_refines:
  assumes "separate obj"
  shows "map_sum id contents (add_trajectory_point_object obj) =
         add_trajectory_point (contents obj)"
proof (cases "int (length (self_trajectory obj)) < self_max_points obj")
  case True
  from separate_fresh_notin [OF assms] True show ?thesis
    by (simp add: add_trajectory_point_object_def add_trajectory_point_def copy_pos_def
        contents_def map_upd_notin)
next
  case False
  show ?thesis
  proof (cases "self_trajectory obj")
    case Nil
    with False show ?thesis
      by (simp add: add_trajectory_point_object_def add_trajectory_point_def contents_def)
  next
    case (Cons r rest)
    with separate_fresh_notin [OF assms] have "fresh obj \<notin> set rest" "fresh obj \<noteq> self_pos obj"
      by simp_all
    with False Cons show ?thesis
      by (simp add: add_trajectory_point_object_def add_trajectory_point_def copy_pos_def
          contents_def map_upd_notin)
  qed
qed

lemma add_trajectory_point_object_separate:
  assumes "separate obj" and "add_trajectory_point_object obj = Inr obj'"
  shows "separate obj'"
proof -
  have mono: "list_all (\<lambda>r. r < Suc (fresh obj) \<and> r \<noteq> self_pos obj) rs"
    if "list_all (\<lambda>r. r < fresh obj \<and> r \<noteq> self_pos obj) rs" for rs
    using that by (auto simp: list_all_iff)
  from assms(1) have p: "self_pos obj < fresh obj"
    and l: "list_all (\<lambda>r. r < fresh obj \<and> r \<noteq> self_pos obj) (self_trajectory obj)"
    by (simp_all add: separate_def)
  show ?thesis
  proof (cases "int (length (self_trajectory obj)) < self_max_points obj")
    case True
    with assms(2) have "obj' = obj\<lparr>arrays := (arrays obj)(fresh obj := arrays obj (self_pos obj)),
        fresh := Suc (fresh obj), self_trajectory := self_trajectory obj @ [fresh obj]\<rparr>"
      by (auto simp: add_trajectory_point_object_def copy_pos_def)
    with p mono [OF l] show ?thesis
      by (auto simp: separate_def)
  next
    case False
    with assms(2) obtain r rest where t: "self_trajectory obj = r # rest"
      by (cases "self_trajectory obj") (auto simp: add_trajectory_point_object_def)
    with False assms(2) have "obj' = obj\<lparr>arrays := (arrays obj)(fresh obj := arrays obj (self_pos obj)),
        fresh := Suc (fresh obj), self_trajectory := rest @ [fresh obj]\<rparr>"
      by (auto simp: add_trajectory_point_object_def copy_pos_def)
    moreover from l t have "list_all (\<lambda>r. r < fresh obj \<and> r \<noteq> self_pos obj) rest"
      by simp
    ultimately show ?thesis
      using p mono by (auto simp: separate_def)
  qed
qed

lemma run_actions_object_refines:
  assumes "separate obj"
  shows "map_sum id contents (run_actions_object as obj) = run_actions as (contents obj) \<and>
         (\<forall>obj'. run_actions_object as obj = Inr obj' \<longrightarrow> separate obj')"
  using assms
proof (induction as arbitrary: obj)
  case Nil
  then show ?case by simp
next
  case (Cons a as)
  show ?case
  proof (cases a)
    case Integrate
    with Cons.IH [OF separate_update_lorenz_object [OF Cons.prems]]
      contents_update_lorenz_object [OF Cons.prems]
    show ?thesis by simp
  next
    case Record
    note step = add_trajectory_point_object_refines [OF Cons.prems]
    show ?thesis
    proof (cases "add_trajectory_point_object obj")
      case (Inl e)
      with step Record show ?thesis
        by (auto simp: map_sum_def split: sum.splits)
    next
      case (Inr obj1)
      with step have v: "add_trajectory_point (contents obj) = Inr (contents obj1)"
        by simp
      from Inr Cons.prems have "separate obj1"
        by (rule add_trajectory_point_object_separate [rotated])
      from Cons.IH [OF this] Inr v Record show ?thesis
        by simp
    qed
  qed
qed

lemma add_trajectory_point_succeeds:
  assumes "0 < max_points s"
  shows "\<exists>s'. add_trajectory_point s = Inr s' \<and> max_points s' = max_points s"
proof (cases "trajectory s")
  case Nil
  with assms show ?thesis
    by (simp add: add_trajectory_point_def)
next
  case (Cons p ps)
  then show ?thesis
    by (simp add: add_trajectory_point_def)
qed

lemma run_actions_succeeds:
  assumes "0 < max_points s"
  shows "\<exists>s'. run_actions as s = Inr s' \<and> max_points s' = max_points s"
  using assms
proof (induction as arbitrary: s)
  case Nil
  then show ?case by simp
next
  case (Cons a as)
  show ?case
  proof (cases a)
    case Integrate
    have "max_points (update_lorenz s) = max_points s"
      by (simp add: update_lorenz_def Let_def)
    with Cons.IH [of "update_lorenz s"] Cons.prems Integrate show ?thesis
      by simp
  next
    case Record
    from add_trajectory_point_succeeds [OF Cons.prems] obtain s1 where
      "add_trajectory_point s = Inr s1" "max_points s1 = max_points s"
      by blast
    with Cons.IH [of s1] Cons.prems Record show ?thesis
      by simp
  qed
qed

lemma init_object_separate: "separate LorenzSimulator_init_object"
  by (simp add: separate_def LorenzSimulator_init_object_def)

lemma init_object_contents: "contents LorenzSimulator_init_object = LorenzSimulator_init"
  by (simp add: contents_def LorenzSimulator_init_object_def LorenzSimulator_init_def)

text \<open>
  C9. After every sequence of integration steps and pushes from the initial simulator,
  the recorded points hold the values the state had at the moments of the pushes (the run
  on arrays by reference agrees with the run that records values), and a further
  integration step, which mutates the array of the state in place, changes neither the
  list of recorded points nor the contents of any of them. No such run fails.
\<close>

theorem recorded_points_are_snapshots:
  "\<exists>obj. run_actions_object as LorenzSimulator_init_object = Inr obj \<and>
     run_actions as LorenzSimulator_init = Inr (contents obj) \<and>
     self_trajectory (update_lorenz_object obj) = self_trajectory obj \<and>
     map (arrays (update_lorenz_object obj)) (self_trajectory obj) =
       map (arrays obj) (self_trajectory obj)"
proof -
  note r = run_actions_object_refines [OF init_object_separate, of as, unfolded init_object_contents]
  have "0 < max_points LorenzSimulator_init"
    by (simp add: LorenzSimulator_init_def)
  from run_actions_succeeds [OF this, of as] obtain s' where
    s': "run_actions as LorenzSimulator_init = Inr s'"
    by blast
  with r obtain obj where
    obj: "run_actions_object as LorenzSimulator_init_object = Inr obj" and c: "s' = contents obj"
    by (cases "run_actions_object as LorenzSimulator_init_object") auto
  with r have "separate obj"
    by blast
  from update_lorenz_object_points [OF this] obj s' c show ?thesis
    by (simp add: update_lorenz_object_fields)
qed

subsection \<open>Configuration\<close>

lemma update_lorenz_configuration:
  "max_points (update_lorenz s) = max_points s"
  "display_width (update_lorenz s) = display_width s"
  "display_height (update_lorenz s) = display_height s"
  by (simp_all add: update_lorenz_def Let_def)

lemma add_trajectory_point_configuration:
  assumes "0 < max_points s"
  shows "\<exists>s'. add_trajectory_point s = Inr s' \<and> max_points s' = max_points s \<and>
           display_width s' = display_width s \<and> display_height s' = display_height s"
proof (cases "trajectory s")
  case Nil
  with assms show ?thesis
    by (simp add: add_trajectory_point_def)
next
  case (Cons p ps)
  then show ?thesis
    by (simp add: add_trajectory_point_def)
qed

lemma integrate_and_record_configuration:
  assumes "0 < max_points s"
  shows "\<exists>s'. integrate_and_record n s = Inr s' \<and> max_points s' = max_points s \<and>
           display_width s' = display_width s \<and> display_height s' = display_height s"
  using assms
proof (induction n arbitrary: s)
  case 0
  show ?case by simp
next
  case (Suc n)
  from Suc.prems have "0 < max_points (update_lorenz s)"
    by (simp add: update_lorenz_configuration)
  from add_trajectory_point_configuration [OF this] obtain s1 where
    s1: "add_trajectory_point (update_lorenz s) = Inr s1" "max_points s1 = max_points s"
      "display_width s1 = display_width s" "display_height s1 = display_height s"
    by (auto simp: update_lorenz_configuration)
  with Suc.IH [of s1] Suc.prems show ?case
    by simp
qed

lemma rotate_view_configuration:
  "max_points (rotate_view s) = max_points s"
  "display_width (rotate_view s) = display_width s"
  "display_height (rotate_view s) = display_height s"
  by (simp_all add: rotate_view_def Let_def)

lemma simulate_frame_configuration:
  assumes "0 < max_points s"
  shows "\<exists>s'. simulate_frame s = Inr s' \<and> max_points s' = max_points s \<and>
           display_width s' = display_width s \<and> display_height s' = display_height s"
proof -
  from integrate_and_record_configuration [OF assms, of 50] obtain s1 where
    "integrate_and_record 50 s = Inr s1" "max_points s1 = max_points s"
    "display_width s1 = display_width s" "display_height s1 = display_height s"
    by blast
  then show ?thesis
    by (simp add: simulate_frame_def rotate_view_configuration)
qed

lemma run_frames_configuration:
  assumes "0 < max_points s"
  shows "\<exists>s'. run_frames n s = Inr s' \<and> max_points s' = max_points s \<and>
           display_width s' = display_width s \<and> display_height s' = display_height s"
  using assms
proof (induction n arbitrary: s)
  case 0
  show ?case by simp
next
  case (Suc n)
  from simulate_frame_configuration [OF Suc.prems] obtain s1 where
    s1: "simulate_frame s = Inr s1" "max_points s1 = max_points s"
      "display_width s1 = display_width s" "display_height s1 = display_height s"
    by blast
  with Suc.IH [of s1] Suc.prems show ?case
    by simp
qed



subsection \<open>Bounds on \<open>pi\<close>\<close>

lemma cos_bounds_8:
  fixes x :: real
  assumes "0 < x"
  shows "cos x \<le> 1 - x\<^sup>2 / 2 + x ^ 4 / 24 - x ^ 6 / 720 + x ^ 8 / 40320"
    and "1 - x\<^sup>2 / 2 + x ^ 4 / 24 - x ^ 6 / 720 - x ^ 8 / 40320 \<le> cos x"
proof -
  from Maclaurin_cos_expansion2 [OF assms, of 8] obtain t where
    e: "cos x = (\<Sum>m<8. cos_coeff m * x ^ m) + cos (t + 1 / 2 * real (8::nat) * pi) / fact 8 * x ^ 8"
    by auto
  have s: "{..<8::nat} = {0, 1, 2, 3, 4, 5, 6, 7}"
    by auto
  have p: "(\<Sum>m<8. cos_coeff m * x ^ m) = 1 - x\<^sup>2 / 2 + x ^ 4 / 24 - x ^ 6 / 720"
    unfolding s by (simp add: cos_coeff_def fact_numeral)
  have f: "(fact 8 :: real) = 40320"
    by (simp add: fact_numeral)
  have "\<bar>cos (t + 1 / 2 * real (8::nat) * pi)\<bar> \<le> 1"
    by (rule abs_cos_le_one)
  then have "\<bar>cos (t + 1 / 2 * real (8::nat) * pi)\<bar> * (x ^ 8 / 40320) \<le> 1 * (x ^ 8 / 40320)"
    using assms by (intro mult_right_mono) simp_all
  then have r: "\<bar>cos (t + 1 / 2 * real (8::nat) * pi) / fact 8 * x ^ 8\<bar> \<le> x ^ 8 / 40320"
    using assms by (simp add: abs_mult f)
  from e p r show "cos x \<le> 1 - x\<^sup>2 / 2 + x ^ 4 / 24 - x ^ 6 / 720 + x ^ 8 / 40320"
    by linarith
  from e p r show "1 - x\<^sup>2 / 2 + x ^ 4 / 24 - x ^ 6 / 720 - x ^ 8 / 40320 \<le> cos x"
    by linarith
qed

lemma pi_gt_31: "31 / 10 < pi"
proof -
  have "(0::real) < 1 - (31 / 20)\<^sup>2 / 2 + (31 / 20) ^ 4 / 24 - (31 / 20) ^ 6 / 720 - (31 / 20) ^ 8 / 40320"
    by (simp add: power_divide)
  also have "\<dots> \<le> cos (31 / 20)"
    by (rule cos_bounds_8) simp
  finally have c: "0 < cos (31 / 20 :: real)" .
  have "31 / 20 < pi / 2"
  proof (rule ccontr)
    assume "\<not> 31 / 20 < pi / 2"
    then have "cos (31 / 20) \<le> cos (pi / 2)"
      using pi_ge_two by (intro cos_monotone_0_pi_le) simp_all
    with c show False by simp
  qed
  then show ?thesis by simp
qed

lemma pi_lt_32: "pi < 32 / 10"
proof -
  have "cos (8 / 5) \<le> 1 - (8 / 5)\<^sup>2 / 2 + (8 / 5) ^ 4 / 24 - (8 / 5) ^ 6 / 720 + (8 / 5) ^ 8 / (40320 :: real)"
    by (rule cos_bounds_8) simp
  also have "\<dots> < 0"
    by (simp add: power_divide)
  finally have c: "cos (8 / 5 :: real) < 0" .
  have "pi / 2 < 8 / 5"
  proof (rule ccontr)
    assume "\<not> pi / 2 < 8 / 5"
    then have "cos (pi / 2) \<le> cos (8 / 5)"
      using pi_ge_two by (intro cos_monotone_0_pi_le) simp_all
    with c show False by simp
  qed
  then show ?thesis by simp
qed

subsection \<open>\<open>pi\<close> is no ratio of integers\<close>

lemma sum_diffs_shift:
  fixes c :: "nat \<Rightarrow> real"
  assumes "\<And>k. M \<le> k \<Longrightarrow> c k = 0"
  shows "(\<Sum>k<M. c k * (real k * x ^ (k - Suc 0))) = (\<Sum>k<M. diffs c k * x ^ k)"
proof (cases M)
  case 0
  then show ?thesis by simp
next
  case (Suc m)
  have "(\<Sum>k<Suc m. c k * (real k * x ^ (k - Suc 0))) = (\<Sum>k<m. c (Suc k) * (real (Suc k) * x ^ k))"
    by (simp add: sum.lessThan_Suc_shift del: sum.lessThan_Suc)
  also have "\<dots> = (\<Sum>k<m. diffs c k * x ^ k)"
    by (simp add: diffs_def mult_ac)
  also have "\<dots> = (\<Sum>k<Suc m. diffs c k * x ^ k)"
    using assms [of "Suc m"] Suc by (simp add: diffs_def)
  finally show ?thesis
    using Suc by simp
qed

lemma polynomial_derivative:
  fixes c :: "nat \<Rightarrow> real"
  assumes "\<And>k. M \<le> k \<Longrightarrow> c k = 0"
  shows "((\<lambda>x. \<Sum>k<M. c k * x ^ k) has_real_derivative (\<Sum>k<M. diffs c k * x ^ k)) (at x)"
proof -
  have "((\<lambda>x. \<Sum>k<M. c k * x ^ k) has_real_derivative
      (\<Sum>k<M. c k * (real k * x ^ (k - Suc 0)))) (at x)"
    by (auto intro!: derivative_eq_intros sum.cong)
  then show ?thesis
    by (simp only: sum_diffs_shift [OF assms])
qed

lemma diffs_funpow_zero:
  fixes c :: "nat \<Rightarrow> real"
  assumes "\<And>k. M \<le> k \<Longrightarrow> c k = 0" and "M \<le> k"
  shows "(diffs ^^ j) c k = 0"
  using assms(2)
proof (induction j arbitrary: k)
  case 0
  then show ?case by (simp add: assms(1))
next
  case (Suc j)
  then show ?case by (simp add: diffs_def)
qed

lemma diffs_funpow_value:
  fixes c :: "nat \<Rightarrow> real"
  shows "(diffs ^^ j) c k * fact k = fact (k + j) * c (k + j)"
proof (induction j arbitrary: k)
  case 0
  show ?case by simp
next
  case (Suc j)
  have "(diffs ^^ Suc j) c k * fact k = (diffs ^^ j) c (Suc k) * fact (Suc k)"
    by (simp add: diffs_def mult_ac)
  also have "\<dots> = fact (Suc k + j) * c (Suc k + j)"
    by (rule Suc.IH)
  finally show ?case by simp
qed

lemma diffs_funpow_at_0:
  fixes c :: "nat \<Rightarrow> real"
  shows "(diffs ^^ j) c 0 = fact j * c j"
  using diffs_funpow_value [of j c 0] by simp

lemma diffs_funpow_high:
  fixes c :: "nat \<Rightarrow> real"
  assumes "\<And>k. M \<le> k \<Longrightarrow> c k = 0" and "M \<le> j"
  shows "(diffs ^^ j) c k = 0"
proof -
  have "(diffs ^^ j) c k * fact k = 0"
    using assms by (simp add: diffs_funpow_value)
  then show ?thesis by simp
qed


lemma poly_diff_derivative:
  assumes "\<And>k. M \<le> k \<Longrightarrow> c k = 0"
  shows "(poly_diff c M j has_real_derivative poly_diff c M (Suc j) x) (at x)"
proof -
  have "\<And>k. M \<le> k \<Longrightarrow> (diffs ^^ j) c k = 0"
    using assms by (rule diffs_funpow_zero)
  from polynomial_derivative [of M "(diffs ^^ j) c", OF this] show ?thesis
    by (simp add: poly_diff_def [abs_def])
qed

lemma poly_diff_at_0:
  assumes "0 < M"
  shows "poly_diff c M j 0 = fact j * c j"
proof -
  have "poly_diff c M j 0 = (\<Sum>k<M. if k = 0 then (diffs ^^ j) c 0 else 0)"
    unfolding poly_diff_def by (intro sum.cong) (auto simp: power_0_left)
  also have "\<dots> = (diffs ^^ j) c 0"
    using assms by simp
  finally show ?thesis
    by (simp add: diffs_funpow_at_0)
qed

lemma poly_diff_high:
  assumes "\<And>k. M \<le> k \<Longrightarrow> c k = 0" and "M \<le> j"
  shows "poly_diff c M j x = 0"
  unfolding poly_diff_def using diffs_funpow_high [OF assms] by simp

lemma poly_diff_reflect:
  assumes van: "\<And>k. M \<le> k \<Longrightarrow> c k = 0"
    and sym: "\<And>x. poly_diff c M 0 (p - x) = poly_diff c M 0 x"
  shows "poly_diff c M j (p - x) = (- 1) ^ j * poly_diff c M j x"
proof (induction j arbitrary: x)
  case 0
  show ?case by (simp add: sym)
next
  case (Suc j)
  have "((\<lambda>x. poly_diff c M j (p - x)) has_real_derivative - poly_diff c M (Suc j) (p - x)) (at x)"
    by (rule DERIV_chain' [where f = "\<lambda>x. p - x" and g = "poly_diff c M j", THEN DERIV_cong])
      (auto intro!: derivative_eq_intros poly_diff_derivative [OF van])
  moreover have "(\<lambda>x. poly_diff c M j (p - x)) = (\<lambda>x. (- 1) ^ j * poly_diff c M j x)"
    by (rule ext) (rule Suc.IH)
  moreover have "((\<lambda>x. (- 1) ^ j * poly_diff c M j x) has_real_derivative
      (- 1) ^ j * poly_diff c M (Suc j) x) (at x)"
    by (intro DERIV_cmult poly_diff_derivative [OF van])
  ultimately have "- poly_diff c M (Suc j) (p - x) = (- 1) ^ j * poly_diff c M (Suc j) x"
    by (simp only: DERIV_unique)
  then show ?case by simp
qed

lemma alternating_sum_derivative:
  assumes "\<And>k. M \<le> k \<Longrightarrow> c k = 0"
  shows "(alternating_sum c M n i has_real_derivative alternating_sum c M n (Suc i) x) (at x)"
  unfolding alternating_sum_def [abs_def]
  by (auto intro!: derivative_eq_intros poly_diff_derivative [OF assms] simp: mult.commute)

lemma alternating_sum_telescope:
  "alternating_sum c M n 2 x + alternating_sum c M n 0 x =
     poly_diff c M 0 x + (- 1) ^ n * poly_diff c M (2 * n + 2) x"
proof (induction n)
  case 0
  show ?case by (simp add: alternating_sum_def)
next
  case (Suc n)
  have "alternating_sum c M (Suc n) 2 x + alternating_sum c M (Suc n) 0 x =
      (alternating_sum c M n 2 x + alternating_sum c M n 0 x) +
      (- 1) ^ Suc n * (poly_diff c M (2 * Suc n + 2) x + poly_diff c M (2 * Suc n) x)"
    by (simp add: alternating_sum_def algebra_simps)
  also have "\<dots> = poly_diff c M 0 x + (- 1) ^ Suc n * poly_diff c M (2 * Suc n + 2) x"
    by (simp only: Suc.IH) (simp add: algebra_simps)
  finally show ?case .
qed


lemma niven_mean_value:
  assumes van: "\<And>k. M \<le> k \<Longrightarrow> c k = 0" and deg: "M \<le> 2 * n + 2"
  shows "\<exists>z. 0 < z \<and> z < pi \<and>
    alternating_sum c M n 0 pi + alternating_sum c M n 0 0 = pi * (poly_diff c M 0 z * sin z)"
proof -
  let ?A0 = "alternating_sum c M n 0"
  let ?A1 = "alternating_sum c M n (Suc 0)"
  let ?A2 = "alternating_sum c M n (Suc (Suc 0))"
  let ?G = "\<lambda>x. ?A1 x * sin x - ?A0 x * cos x"
  have d: "(?G has_real_derivative poly_diff c M 0 x * sin x) (at x)" for x
  proof -
    have a0: "(?A0 has_real_derivative ?A1 x) (at x)"
      by (rule alternating_sum_derivative) (rule van)
    have a1: "(?A1 has_real_derivative ?A2 x) (at x)"
      by (rule alternating_sum_derivative) (rule van)
    have g: "(?G has_real_derivative
        (?A2 x * sin x + ?A1 x * cos x) - (?A1 x * cos x + ?A0 x * (- sin x))) (at x)"
      by (auto intro!: derivative_eq_intros a0 a1)
    have "poly_diff c M (2 * n + 2) x = 0"
      using van deg by (rule poly_diff_high)
    then have "alternating_sum c M n 2 x + ?A0 x = poly_diff c M 0 x"
      by (simp add: alternating_sum_telescope)
    then have "?A2 x + ?A0 x = poly_diff c M 0 x"
      by (simp add: numeral_2_eq_2)
    then have "(?A2 x + ?A0 x) * sin x = poly_diff c M 0 x * sin x"
      by (rule arg_cong)
    then have "(?A2 x * sin x + ?A1 x * cos x) - (?A1 x * cos x + ?A0 x * (- sin x))
        = poly_diff c M 0 x * sin x"
      by (simp add: distrib_right)
    with g show ?thesis
      by simp
  qed
  have "\<exists>z. 0 < z \<and> z < pi \<and> ?G pi - ?G 0 = (pi - 0) * (poly_diff c M 0 z * sin z)"
    by (rule MVT2) (simp_all add: d)
  then show ?thesis
    by simp
qed


lemma niven_coeff_zero: "2 * n + 1 \<le> k \<Longrightarrow> niven_coeff a b n k = 0"
  by (simp add: niven_coeff_def)

lemma niven_coeff_shift:
  assumes "j \<le> n"
  shows "niven_coeff a b n (j + n) =
         of_nat (n choose j) * (- real b) ^ j * real a ^ (n - j) / fact n"
proof -
  have "2 * n - (j + n) = n - j"
    by simp
  with assms show ?thesis
    by (simp add: niven_coeff_def)
qed

lemma niven_closed_form:
  "poly_diff (niven_coeff a b n) (2 * n + 1) 0 x = x ^ n * (real a - real b * x) ^ n / fact n"
proof -
  let ?c = "niven_coeff a b n"
  have "poly_diff ?c (2 * n + 1) 0 x = (\<Sum>k<2 * n + 1. ?c k * x ^ k)"
    by (simp add: poly_diff_def)
  also have "\<dots> = (\<Sum>k\<in>{0 + n..n + n}. ?c k * x ^ k)"
    by (rule sum.mono_neutral_right) (auto simp: niven_coeff_def)
  also have "\<dots> = (\<Sum>j\<in>{0..n}. ?c (j + n) * x ^ (j + n))"
    by (rule sum.shift_bounds_cl_nat_ivl)
  also have "\<dots> = (\<Sum>j\<le>n. x ^ n * (of_nat (n choose j) * (- real b * x) ^ j * real a ^ (n - j)) / fact n)"
    unfolding atLeast0AtMost
    by (intro sum.cong refl, unfold power_mult_distrib) (simp add: niven_coeff_shift power_add)
  also have "\<dots> = x ^ n * (\<Sum>j\<le>n. of_nat (n choose j) * (- real b * x) ^ j * real a ^ (n - j)) / fact n"
    by (simp add: sum_distrib_left sum_divide_distrib)
  also have "(\<Sum>j\<le>n. of_nat (n choose j) * (- real b * x) ^ j * real a ^ (n - j)) =
      (- real b * x + real a) ^ n"
    by (rule binomial_ring [symmetric])
  finally show ?thesis
    by (simp add: algebra_simps)
qed

lemma fact_ratio_integral:
  assumes "n \<le> k"
  shows "(fact k :: real) / fact n \<in> \<int>"
proof -
  have "(fact n :: nat) dvd fact k"
    using assms by (rule fact_dvd)
  then have "real (fact k div fact n) = real (fact k) / real (fact n)"
    by (rule real_of_nat_div)
  then have "(fact k :: real) / fact n = of_nat (fact k div fact n)"
    by simp
  then show ?thesis
    by (simp only: Ints_of_nat)
qed

lemma niven_coeff_integral: "fact k * niven_coeff a b n k \<in> \<int>"
proof (cases "n \<le> k \<and> k \<le> 2 * n")
  case True
  then have "fact k * niven_coeff a b n k =
      of_int (int (n choose (k - n)) * (- int b) ^ (k - n) * int a ^ (2 * n - k)) *
      (fact k / fact n)"
    by (simp add: niven_coeff_def)
  moreover have "(fact k :: real) / fact n \<in> \<int>"
    using True by (intro fact_ratio_integral) simp
  ultimately show ?thesis
    by (simp only: Ints_mult Ints_of_int)
next
  case False
  then have "niven_coeff a b n k = 0"
    unfolding niven_coeff_def by (rule if_not_P)
  then show ?thesis
    by simp
qed

lemma niven_reflect:
  assumes "pi * real b = real a"
  shows "poly_diff (niven_coeff a b n) (2 * n + 1) 0 (pi - x) =
         poly_diff (niven_coeff a b n) (2 * n + 1) 0 x"
proof -
  have 1: "real a - real b * (pi - x) = real b * x"
    using assms by (simp add: algebra_simps)
  have 2: "(pi - x) * (real b * x) = x * (real a - real b * x)"
    using assms by (simp add: algebra_simps)
  have "(pi - x) ^ n * (real a - real b * (pi - x)) ^ n = ((pi - x) * (real b * x)) ^ n"
    by (simp only: 1 power_mult_distrib)
  also have "\<dots> = x ^ n * (real a - real b * x) ^ n"
    by (simp only: 2 power_mult_distrib)
  finally show ?thesis
    by (simp only: niven_closed_form)
qed


lemma power_over_fact_small:
  fixes y :: real
  assumes "0 < e"
  shows "\<exists>n. \<bar>y ^ n / fact n\<bar> < e"
proof -
  have "summable (\<lambda>n. inverse (fact n) * y ^ n)"
    by (rule summable_exp)
  then have "(\<lambda>n. inverse (fact n) * y ^ n) \<longlonglongrightarrow> 0"
    by (rule summable_LIMSEQ_zero)
  from LIMSEQ_D [OF this assms] obtain n0 where
    "\<forall>n\<ge>n0. norm (inverse (fact n) * y ^ n - 0) < e"
    by blast
  then have "\<bar>y ^ n0 / fact n0\<bar> < e"
    by (simp add: divide_inverse mult.commute)
  then show ?thesis ..
qed

lemma no_integer_in_unit_interval:
  fixes x :: real
  assumes "x \<in> \<int>" and "0 < x" and "x < 1"
  shows False
proof -
  from assms(1) obtain k :: int where "x = of_int k"
    by (rule Ints_cases)
  with assms(2,3) have "0 < k" "k < 1"
    by simp_all
  then show False
    by linarith
qed

lemma pi_not_ratio:
  fixes a b :: nat
  assumes b: "0 < b"
  shows "pi * real b \<noteq> real a"
proof
  assume eq: "pi * real b = real a"
  have a: "0 < real a"
    using b by (simp flip: eq)
  from power_over_fact_small [of "1 / pi" "pi * real a"] obtain n where
    "\<bar>(pi * real a) ^ n / fact n\<bar> < 1 / pi"
    by auto
  then have small: "pi * ((pi * real a) ^ n / fact n) < 1"
    by (simp add: field_simps)
  let ?c = "niven_coeff a b n"
  let ?M = "2 * n + 1"
  let ?A = "alternating_sum ?c ?M n 0"
  have van: "\<And>k. ?M \<le> k \<Longrightarrow> ?c k = 0"
    by (rule niven_coeff_zero)
  have refl: "poly_diff ?c ?M j (pi - x) = (- 1) ^ j * poly_diff ?c ?M j x" for j x
    by (rule poly_diff_reflect [OF van niven_reflect [OF eq]])
  have "poly_diff ?c ?M (2 * j + 0) pi = poly_diff ?c ?M (2 * j + 0) 0" for j
    using refl [of "2 * j" 0] by simp
  then have same: "?A pi = ?A 0"
    by (simp only: alternating_sum_def)
  have "poly_diff ?c ?M (2 * j + 0) 0 \<in> \<int>" for j
    by (simp add: poly_diff_at_0 niven_coeff_integral)
  then have "?A 0 \<in> \<int>"
    unfolding alternating_sum_def by (intro Ints_sum Ints_mult Ints_power Ints_minus Ints_1)
  then have int: "?A pi + ?A 0 \<in> \<int>"
    by (simp only: same Ints_add)
  from niven_mean_value [of ?M ?c n, OF van] obtain z where
    z: "0 < z" "z < pi" and mv: "?A pi + ?A 0 = pi * (poly_diff ?c ?M 0 z * sin z)"
    by auto
  let ?f = "z ^ n * (real a - real b * z) ^ n / fact n"
  have f: "poly_diff ?c ?M 0 z = ?f"
    by (rule niven_closed_form)
  have "real b * z < real b * pi"
    using z b by simp
  then have w: "0 < real a - real b * z" "real a - real b * z \<le> real a"
    using eq z b by (simp_all add: mult.commute)
  have s: "0 < sin z" "sin z \<le> 1"
    using z by (simp_all add: sin_gt_zero)
  have fpos: "0 < ?f"
    using z w by simp
  have "z ^ n * (real a - real b * z) ^ n \<le> pi ^ n * real a ^ n"
    using z w by (intro mult_mono power_mono) simp_all
  then have fle: "?f \<le> (pi * real a) ^ n / fact n"
    by (simp add: power_mult_distrib divide_right_mono)
  have "?f * sin z \<le> ?f * 1"
    using fpos s by (intro mult_left_mono) simp_all
  with fle have "?f * sin z \<le> (pi * real a) ^ n / fact n"
    by simp
  then have "pi * (?f * sin z) \<le> pi * ((pi * real a) ^ n / fact n)"
    by (intro mult_left_mono) simp_all
  with small have up: "pi * (?f * sin z) < 1"
    by linarith
  have lo: "0 < pi * (?f * sin z)"
    using fpos s(1) by (intro mult_pos_pos pi_gt_zero)
  from int mv f have "pi * (?f * sin z) \<in> \<int>"
    by simp
  then show False
    using lo up by (rule no_integer_in_unit_interval)
qed

subsection \<open>The view angle\<close>

lemma rotate_view_angle: "rotation_angle (rotate_view s) = advance_angle (rotation_angle s)"
  by (simp add: rotate_view_def advance_angle_def Let_def)

lemma update_lorenz_angle: "rotation_angle (update_lorenz s) = rotation_angle s"
  by (simp add: update_lorenz_def Let_def)

lemma add_trajectory_point_angle:
  "add_trajectory_point s = Inr s' \<Longrightarrow> rotation_angle s' = rotation_angle s"
  by (auto simp: add_trajectory_point_def split: if_splits list.splits)

lemma integrate_and_record_angle:
  "integrate_and_record n s = Inr s' \<Longrightarrow> rotation_angle s' = rotation_angle s"
proof (induction n arbitrary: s)
  case 0
  then show ?case by simp
next
  case (Suc n)
  then obtain s1 where s1: "add_trajectory_point (update_lorenz s) = Inr s1"
    and r: "integrate_and_record n s1 = Inr s'"
    by (auto split: sum.splits)
  from Suc.IH [OF r] add_trajectory_point_angle [OF s1] show ?case
    by (simp add: update_lorenz_angle)
qed

lemma simulate_frame_angle:
  "simulate_frame s = Inr s' \<Longrightarrow> rotation_angle s' = advance_angle (rotation_angle s)"
  by (auto simp: simulate_frame_def rotate_view_angle split: sum.splits
      dest: integrate_and_record_angle)

lemma run_frames_angle:
  "run_frames n s = Inr s' \<Longrightarrow> rotation_angle s' = (advance_angle ^^ n) (rotation_angle s)"
proof (induction n arbitrary: s)
  case 0
  then show ?case by simp
next
  case (Suc n)
  then obtain s1 where s1: "simulate_frame s = Inr s1" and r: "run_frames n s1 = Inr s'"
    by (auto split: sum.splits)
  from Suc.IH [OF r] simulate_frame_angle [OF s1] show ?case
    by (simp add: funpow_swap1)
qed

lemma two_pi_bounds: "62 / 10 < 2 * pi" "2 * pi < 64 / 10"
  using pi_gt_31 pi_lt_32 by simp_all

lemma angle_sequence:
  "\<exists>k::nat. (advance_angle ^^ n) 0 = real n * (2 / 10) - real k * (2 * pi) \<and>
     0 \<le> (advance_angle ^^ n) 0 \<and> (advance_angle ^^ n) 0 < 2 * pi"
proof (induction n)
  case 0
  show ?case by (intro exI [of _ 0]) simp
next
  case (Suc n)
  define a where "a = (advance_angle ^^ n) 0"
  from Suc obtain k :: nat where
    eq: "a = real n * (2 / 10) - real k * (2 * pi)" and lo: "0 \<le> a" and hi: "a < 2 * pi"
    unfolding a_def by blast
  have next_angle: "(advance_angle ^^ Suc n) 0 = advance_angle a"
    by (simp add: a_def)
  have n1: "real (Suc n) * (2 / 10) = real n * (2 / 10) + 2 / 10"
    by (simp add: algebra_simps)
  have k1: "real (Suc k) * (2 * pi) = real k * (2 * pi) + 2 * pi"
    by (simp add: algebra_simps)
  have ne: "a + 2 / 10 \<noteq> 2 * pi"
  proof
    assume "a + 2 / 10 = 2 * pi"
    with eq n1 k1 have "real (Suc k) * (2 * pi) = real (Suc n) * (2 / 10)"
      by linarith
    then have "pi * real (10 * Suc k) = real (Suc n)"
      by (simp add: algebra_simps)
    moreover have "pi * real (10 * Suc k) \<noteq> real (Suc n)"
      by (rule pi_not_ratio) simp
    ultimately show False by contradiction
  qed
  show ?case
  proof (cases "a + 2 / 10 > 2 * pi")
    case True
    then have v: "advance_angle a = a + 2 / 10 - 2 * pi"
      by (simp add: advance_angle_def)
    have "advance_angle a = real (Suc n) * (2 / 10) - real (Suc k) * (2 * pi)"
      using v eq n1 k1 by linarith
    moreover have "0 \<le> advance_angle a"
      using v True by linarith
    moreover have "advance_angle a < 2 * pi"
      using v hi two_pi_bounds(1) by linarith
    ultimately show ?thesis
      unfolding next_angle by blast
  next
    case False
    then have v: "advance_angle a = a + 2 / 10"
      by (simp add: advance_angle_def)
    have "advance_angle a = real (Suc n) * (2 / 10) - real k * (2 * pi)"
      using v eq n1 by linarith
    moreover have "0 \<le> advance_angle a"
      using v lo by linarith
    moreover have "advance_angle a < 2 * pi"
      using v False ne by linarith
    ultimately show ?thesis
      unfolding next_angle by blast
  qed
qed

lemma wrap_count:
  fixes k :: nat
  assumes eq: "a = real n * (2 / 10) - real k * (2 * pi)"
    and lo: "0 \<le> a" and hi: "a < 2 * pi"
  shows "1 \<le> k \<longleftrightarrow> 32 \<le> n"
proof
  assume k: "1 \<le> k"
  then have "1 * (2 * pi) \<le> real k * (2 * pi)"
    by (intro mult_right_mono) simp_all
  with eq lo two_pi_bounds(1) have "62 / 10 < real n * (2 / 10)"
    by linarith
  then have "31 < real n"
    by simp
  then show "32 \<le> n"
    by linarith
next
  assume n: "32 \<le> n"
  show "1 \<le> k"
  proof (rule ccontr)
    assume "\<not> 1 \<le> k"
    then have "k = 0" by simp
    with eq have "a = real n * (2 / 10)"
      by simp
    moreover from n have "64 / 10 \<le> real n * (2 / 10)"
      by simp
    ultimately show False
      using hi two_pi_bounds(2) by linarith
  qed
qed

lemma ceiling_turn: "\<lceil>2 * pi / (2 / 10)\<rceil> = 32"
proof -
  have "31 < 2 * pi / (2 / 10)" "2 * pi / (2 / 10) \<le> 32"
    using two_pi_bounds by simp_all
  then show ?thesis
    by (simp add: ceiling_eq_iff)
qed

text \<open>
  C5. Starting from the initial simulator, whose view angle is 0, the run of \<open>n\<close> frames
  succeeds and leaves the angle \<open>0.2 n\<close> minus a whole number \<open>k\<close> of full turns, inside
  \<open>[0, 2 pi)\<close>; \<open>k\<close> is at least 1 exactly when \<open>n\<close> is at least 32, which is the ceiling of
  \<open>2 pi / 0.2\<close>; and the next frame adds \<open>0.2\<close> to the angle and takes one turn off when
  the sum exceeds \<open>2 pi\<close>.
\<close>

theorem rotation_angle_wraps:
  "\<lceil>2 * pi / (2 / 10)\<rceil> = 32 \<and>
   (\<exists>s s'. \<exists>k::nat.
      run_frames n LorenzSimulator_init = Inr s \<and>
      rotation_angle s = real n * (2 / 10) - real k * (2 * pi) \<and>
      0 \<le> rotation_angle s \<and> rotation_angle s < 2 * pi \<and>
      (1 \<le> k \<longleftrightarrow> 32 \<le> n) \<and>
      simulate_frame s = Inr s' \<and>
      rotation_angle s' =
        (if rotation_angle s + 2 / 10 > 2 * pi then rotation_angle s + 2 / 10 - 2 * pi
         else rotation_angle s + 2 / 10))"
proof -
  have cap: "0 < max_points LorenzSimulator_init"
    by (simp add: LorenzSimulator_init_def)
  from run_frames_configuration [OF cap, of n] obtain s where
    s: "run_frames n LorenzSimulator_init = Inr s" and "max_points s = max_points LorenzSimulator_init"
    by blast
  with cap have "0 < max_points s"
    by simp
  from simulate_frame_configuration [OF this] obtain s' where s': "simulate_frame s = Inr s'"
    by blast
  have "rotation_angle LorenzSimulator_init = 0"
    by (simp add: LorenzSimulator_init_def)
  with run_frames_angle [OF s] have a: "rotation_angle s = (advance_angle ^^ n) 0"
    by simp
  from angle_sequence [of n] obtain k :: nat where
    k: "rotation_angle s = real n * (2 / 10) - real k * (2 * pi)"
      "0 \<le> rotation_angle s" "rotation_angle s < 2 * pi"
    unfolding a by blast
  note wrap_count [OF k]
  moreover note simulate_frame_angle [OF s', unfolded advance_angle_def]
  ultimately show ?thesis
    using ceiling_turn s s' k by blast
qed


end
